theory Spec2Isabelle
  imports
    Main
    "HOL-Library.Sublist"
    "HOL-Library.Char_ord"
    "HOL-Library.List_Lexorder"
    "HOL-Library.Product_Lexorder"
begin

section \<open>The parsed source record\<close>

text \<open>
  The transformer of \<^verbatim>\<open>src/data_transformation/transformer.py\<close> reads one JSON
  document per match. A scalar field that is only read with \<^verbatim>\<open>dict.get\<close> and stored
  arrives as \<^verbatim>\<open>None\<close> both when its key is missing and when it is JSON null: it is
  \<open>None\<close> here. \<^verbatim>\<open>match_type\<close> is read with the default \<^verbatim>\<open>""\<close> and lower-cased at
  once, so a missing key (\<open>None\<close>), a JSON null, a number and a string are kept
  apart. The sub-dictionaries (\<^verbatim>\<open>info\<close>, \<^verbatim>\<open>toss\<close>, \<^verbatim>\<open>outcome\<close>, \<^verbatim>\<open>event\<close>, \<^verbatim>\<open>runs\<close>, the
  entries of the lists) are dictionaries when present; a missing one is read as
  \<^verbatim>\<open>{}\<close>, which is the record all of whose fields are \<open>None\<close>. The lists
  (\<^verbatim>\<open>innings\<close>, \<^verbatim>\<open>overs\<close>, \<^verbatim>\<open>deliveries\<close>, \<^verbatim>\<open>wickets\<close>, \<^verbatim>\<open>fielders\<close>, \<^verbatim>\<open>dates\<close>, \<^verbatim>\<open>teams\<close>)
  are lists when present; a missing list, and a missing or null \<^verbatim>\<open>by\<close> mapping, is
  read as empty or tested for truthiness only, and is the empty list. Strings are
  strings of code points below 256; seasons, team and player names are strings;
  run counts, margins and the numeric scalars are integers.
\<close>

datatype cell = Null | Num int | Str string

record toss =
  t_winner :: "string option"
  t_decision :: "string option"

record outcome =
  o_result :: "string option"
  o_winner :: "string option"
  o_by :: "(string \<times> int) list"

record event =
  ev_name :: "string option"
  ev_match_number :: cell

record info =
  i_match_type :: "cell option"
  i_season :: "string option"
  i_venue :: "string option"
  i_city :: "string option"
  i_dates :: "string list"
  i_teams :: "string list"
  i_toss :: toss
  i_outcome :: outcome
  i_event :: event
  i_balls_per_over :: "int option"
  i_match_type_number :: "int option"
  i_overs :: "int option"
  i_gender :: "string option"
  i_officials :: "(string \<times> string list) list option"
  i_player_of_match :: "string list option"
  i_team_type :: "string option"

record fielder =
  f_name :: "string option"

record wicket_json =
  w_kind :: "string option"
  w_player_out :: "string option"
  w_fielders :: "fielder list"

record runs =
  r_batter :: "int option"
  r_extras :: "int option"
  r_total :: "int option"

record delivery =
  dl_batter :: "string option"
  dl_bowler :: "string option"
  dl_non_striker :: "string option"
  dl_runs :: runs
  dl_wickets :: "wicket_json list"

record over_json =
  ov_over :: "int option"
  ov_deliveries :: "delivery list"

record inning =
  in_team :: "string option"
  in_overs :: "over_json list"

record match_json =
  mj_info :: info
  mj_innings :: "inning list"

section \<open>The rows the Flattener produces\<close>

record match_data =
  match_id :: string
  match_type :: string
  season :: "string option"
  venue :: "string option"
  city :: "string option"
  dates :: "string list"
  teams :: "string list"
  toss_winner :: "string option"
  toss_decision :: "string option"
  outcome_result :: "string option"
  outcome_winner :: "string option"
  outcome_type :: "string option"
  outcome_by :: "int option"
  event_name :: "string option"
  event_match_number :: cell
  balls_per_over :: "int option"
  match_type_number :: "int option"
  overs :: "int option"
  gender :: "string option"
  officials :: "(string \<times> string list) list option"
  player_of_match :: "string list option"
  team_type :: "string option"

text \<open>
  The three wicket keys of a delivery row are written together, and only when the
  delivery has a wicket: \<open>d_wicket\<close> is \<open>None\<close> when the keys are absent.
\<close>

record wicket_fields =
  wicket_kind :: "string option"
  wicket_player_out :: "string option"
  wicket_fielders :: "string list"

record delivery_record =
  d_match_id :: string
  d_innings :: nat
  d_batting_team :: "string option"
  d_over :: "int option"
  d_delivery_in_over :: nat
  d_batter :: "string option"
  d_bowler :: "string option"
  d_non_striker :: "string option"
  d_runs_batter :: "int option"
  d_runs_extras :: "int option"
  d_runs_total :: "int option"
  d_wicket :: "wicket_fields option"

record transformer =
  tests :: "match_data list"
  odis :: "match_data list"
  t20s :: "match_data list"
  deliveries :: "delivery_record list"

section \<open>String helpers of the Python runtime\<close>

text \<open>
  \<^verbatim>\<open>str.lower\<close>, for strings of the code points below 256: the capital letters are
  A to Z and the Latin-1 letters 192 to 222 but for the sign 215, each 32 below
  its small letter; every other code point is left as it is.
\<close>

definition lower_char :: "char \<Rightarrow> char" where
  "lower_char c =
     (let n = (of_char c :: nat)
      in if (65 \<le> n \<and> n \<le> 90) \<or> (192 \<le> n \<and> n \<le> 222 \<and> n \<noteq> 215)
         then char_of (n + 32) else c)"

definition lower :: "string \<Rightarrow> string" where
  "lower s = map lower_char s"

text \<open>\<^verbatim>\<open>sub in s\<close>: some suffix of \<open>s\<close> starts with \<open>sub\<close>.\<close>

fun contains :: "string \<Rightarrow> string \<Rightarrow> bool" where
  "contains sub [] = (sub = [])"
| "contains sub (c # cs) = (prefix sub (c # cs) \<or> contains sub cs)"

text \<open>\<^verbatim>\<open>os.path.basename\<close> (POSIX): the part after the last slash.\<close>

fun basename :: "string \<Rightarrow> string" where
  "basename [] = []"
| "basename (c # cs) = (if CHR ''/'' \<in> set (c # cs) then basename cs else c # cs)"

text \<open>
  \<^verbatim>\<open>os.path.splitext(p)[0]\<close> for a path without a slash: cut at the last dot, unless
  only dots precede it.
\<close>

definition splitext_root :: "string \<Rightarrow> string" where
  "splitext_root p =
     (let ext = takeWhile (\<lambda>c. c \<noteq> CHR ''.'') (rev p);
          root = take (length p - length ext - 1) p
      in if CHR ''.'' \<in> set p \<and> (\<exists>c \<in> set root. c \<noteq> CHR ''.'') then root else p)"

section \<open>The Flattener: \<^verbatim>\<open>DataTransformer._process_match\<close>\<close>

datatype error = AttributeError | KeyError

text \<open>
  Line 75, \<^verbatim>\<open>info.get("match_type", "").lower()\<close>: a missing key gives the empty
  string; a value that is not a string has no \<^verbatim>\<open>lower\<close> and raises.
\<close>

definition match_type_of :: "info \<Rightarrow> error + string" where
  "match_type_of info_dict =
     (case i_match_type info_dict of
        None \<Rightarrow> Inr (lower [])
      | Some Null \<Rightarrow> Inl AttributeError
      | Some (Num n) \<Rightarrow> Inl AttributeError
      | Some (Str s) \<Rightarrow> Inr (lower s))"

text \<open>Lines 77-83: the first key of the \<^verbatim>\<open>by\<close> mapping and the value stored at it.\<close>

definition outcome_margin :: "(string \<times> int) list \<Rightarrow> string option \<times> int option" where
  "outcome_margin outcome_by_dict =
     (case outcome_by_dict of
        [] \<Rightarrow> (None, None)
      | kv # _ \<Rightarrow> (Some (fst kv), map_of outcome_by_dict (fst kv)))"

text \<open>Lines 74 and 85-108: the row, given the lower-cased match type \<open>mt\<close> of line 75.\<close>

definition make_match_data :: "match_json \<Rightarrow> string \<Rightarrow> string \<Rightarrow> match_data" where
  "make_match_data mj file_path mt =
     (let inf = mj_info mj;
          mid = splitext_root (basename file_path);
          margin = outcome_margin (o_by (i_outcome inf))
      in \<lparr> match_id = mid,
           match_type = mt,
           season = i_season inf,
           venue = i_venue inf,
           city = i_city inf,
           dates = i_dates inf,
           teams = i_teams inf,
           toss_winner = t_winner (i_toss inf),
           toss_decision = t_decision (i_toss inf),
           outcome_result = o_result (i_outcome inf),
           outcome_winner = o_winner (i_outcome inf),
           outcome_type = fst margin,
           outcome_by = snd margin,
           event_name = ev_name (i_event inf),
           event_match_number = ev_match_number (i_event inf),
           balls_per_over = i_balls_per_over inf,
           match_type_number = i_match_type_number inf,
           overs = i_overs inf,
           gender = i_gender inf,
           officials = i_officials inf,
           player_of_match = i_player_of_match inf,
           team_type = i_team_type inf \<rparr>)"

text \<open>Lines 110-117: the \<^verbatim>\<open>if/elif/elif/else\<close> chain over the three lists.\<close>

definition bucket :: "match_data \<Rightarrow> transformer \<Rightarrow> transformer" where
  "bucket match_data_row st =
     (if contains ''test'' (match_type match_data_row) then st\<lparr>tests := tests st @ [match_data_row]\<rparr>
      else if contains ''odi'' (match_type match_data_row) then st\<lparr>odis := odis st @ [match_data_row]\<rparr>
      else if contains ''t20'' (match_type match_data_row) then st\<lparr>t20s := t20s st @ [match_data_row]\<rparr>
      else st)"

text \<open>
  Lines 140-149: a truthy \<^verbatim>\<open>f.get("name")\<close> is a name that is present and not the
  empty string.
\<close>

fun fielder_names :: "fielder list \<Rightarrow> string list" where
  "fielder_names [] = []"
| "fielder_names (f # fs) =
     (case f_name f of
        None \<Rightarrow> fielder_names fs
      | Some n \<Rightarrow> if n \<noteq> [] then n # fielder_names fs else fielder_names fs)"

definition wicket_of :: "wicket_json list \<Rightarrow> wicket_fields option" where
  "wicket_of wickets =
     (if wickets = [] then None
      else let first_wicket = last wickets
           in Some \<lparr> wicket_kind = w_kind first_wicket,
                     wicket_player_out = w_player_out first_wicket,
                     wicket_fielders =
                       (if w_fielders first_wicket \<noteq> []
                        then fielder_names (w_fielders first_wicket)
                        else []) \<rparr>)"

definition make_delivery_record ::
  "string \<Rightarrow> nat \<Rightarrow> string option \<Rightarrow> int option \<Rightarrow> nat \<Rightarrow> delivery \<Rightarrow> delivery_record" where
  "make_delivery_record mid inning_index batting_team_v over_num delivery_index d =
     \<lparr> d_match_id = mid,
       d_innings = inning_index,
       d_batting_team = batting_team_v,
       d_over = over_num,
       d_delivery_in_over = delivery_index,
       d_batter = dl_batter d,
       d_bowler = dl_bowler d,
       d_non_striker = dl_non_striker d,
       d_runs_batter = r_batter (dl_runs d),
       d_runs_extras = r_extras (dl_runs d),
       d_runs_total = r_total (dl_runs d),
       d_wicket = wicket_of (dl_wickets d) \<rparr>"

text \<open>Lines 119-151: the three nested loops, with \<^verbatim>\<open>enumerate(..., start=1)\<close>.\<close>

definition over_records :: "string \<Rightarrow> nat \<Rightarrow> string option \<Rightarrow> over_json \<Rightarrow> delivery_record list" where
  "over_records mid inning_index batting_team_v ov =
     map (\<lambda>(k, d). make_delivery_record mid inning_index batting_team_v (ov_over ov) (Suc k) d)
       (enumerate 0 (ov_deliveries ov))"

definition inning_records :: "string \<Rightarrow> nat \<Rightarrow> inning \<Rightarrow> delivery_record list" where
  "inning_records mid inning_index inn =
     concat (map (over_records mid inning_index (in_team inn)) (in_overs inn))"

definition match_deliveries :: "string \<Rightarrow> inning list \<Rightarrow> delivery_record list" where
  "match_deliveries mid inns =
     concat (map (\<lambda>(i, inn). inning_records mid (Suc i) inn) (enumerate 0 inns))"

text \<open>
  \<^verbatim>\<open>_process_match\<close>: the exception of line 75 is raised before anything is
  appended.
\<close>

definition process_match :: "match_json \<Rightarrow> string \<Rightarrow> transformer \<Rightarrow> error + transformer" where
  "process_match mj file_path st =
     (case match_type_of (mj_info mj) of
        Inl e \<Rightarrow> Inl e
      | Inr mt \<Rightarrow>
          (let match_data_row = make_match_data mj file_path mt;
               st1 = bucket match_data_row st
           in Inr (st1\<lparr>deliveries :=
                        deliveries st1 @
                        match_deliveries (match_id match_data_row) (mj_innings mj)\<rparr>)))"

text \<open>
  Lines 54-65, \<^verbatim>\<open>process_files\<close>: every file is parsed and flattened in turn; a file
  that cannot be read or parsed (\<open>None\<close>), and a file on which \<^verbatim>\<open>_process_match\<close>
  raises, is logged and the loop goes on. The transformer starts with four empty
  lists (lines 40-43).
\<close>

definition init_transformer :: transformer where
  "init_transformer = \<lparr> tests = [], odis = [], t20s = [], deliveries = [] \<rparr>"

fun process_files :: "(string \<times> match_json option) list \<Rightarrow> transformer \<Rightarrow> transformer" where
  "process_files [] st = st"
| "process_files ((file_path, None) # files) st = process_files files st"
| "process_files ((file_path, Some mj) # files) st =
     (case process_match mj file_path st of
        Inl e \<Rightarrow> process_files files st
      | Inr st' \<Rightarrow> process_files files st')"

section \<open>The tiers, in the words of the specification\<close>

datatype tier = Test | Odi | T20

fun tier_name :: "tier \<Rightarrow> string" where
  "tier_name Test = ''test''"
| "tier_name Odi = ''odi''"
| "tier_name T20 = ''t20''"

fun table :: "tier \<Rightarrow> transformer \<Rightarrow> match_data list" where
  "table Test st = tests st"
| "table Odi st = odis st"
| "table T20 st = t20s st"

text \<open>
  The first of test, odi, t20 whose name occurs as a contiguous substring of the
  match type, if there is one.
\<close>

definition first_tier :: "string \<Rightarrow> tier option" where
  "first_tier mt = find (\<lambda>t. sublist (tier_name t) mt) [Test, Odi, T20]"

text \<open>The lower-cased match type of a document, when it has one.\<close>

definition lowered_type :: "match_json \<Rightarrow> error + string" where
  "lowered_type mj = match_type_of (mj_info mj)"

text \<open>
  The rows a run of \<^verbatim>\<open>process_files\<close> owes to tier \<open>t\<close>, in file order: those of
  the parsed documents with a lower-cased match type whose first tier is \<open>t\<close>.
\<close>

fun rows_of_tier :: "tier \<Rightarrow> (string \<times> match_json option) list \<Rightarrow> match_data list" where
  "rows_of_tier t [] = []"
| "rows_of_tier t ((file_path, None) # files) = rows_of_tier t files"
| "rows_of_tier t ((file_path, Some mj) # files) =
     (case lowered_type mj of
        Inl e \<Rightarrow> rows_of_tier t files
      | Inr mt \<Rightarrow>
          if first_tier mt = Some t
          then make_match_data mj file_path mt # rows_of_tier t files
          else rows_of_tier t files)"

text \<open>
  The deliveries of a document in source order, and those of a run: of the
  parsed documents on which the Flattener does not raise.
\<close>

definition all_deliveries :: "match_json \<Rightarrow> delivery list" where
  "all_deliveries mj = concat (map ov_deliveries (concat (map in_overs (mj_innings mj))))"

fun run_deliveries :: "(string \<times> match_json option) list \<Rightarrow> delivery list" where
  "run_deliveries [] = []"
| "run_deliveries ((file_path, None) # files) = run_deliveries files"
| "run_deliveries ((file_path, Some mj) # files) =
     (case lowered_type mj of
        Inl e \<Rightarrow> run_deliveries files
      | Inr mt \<Rightarrow> all_deliveries mj @ run_deliveries files)"

section \<open>The data frames of \<^verbatim>\<open>get_dataframes\<close>\<close>

text \<open>
  \<^verbatim>\<open>get_dataframes\<close> holds a frame of match rows per tier, built from the
  transformer's lists, and \<^verbatim>\<open>combined\<close>, the result of \<^verbatim>\<open>pd.concat\<close>.
  \<^verbatim>\<open>impute_match_fields(df, combined)\<close> writes with \<^verbatim>\<open>df.at[idx, col] = v\<close> and reads
  \<^verbatim>\<open>combined\<close>, so the frames live in a store, a variable holds the name of a frame,
  and two variables that share their data hold the same name. A frame is the
  list of its rows; the index of a frame built from a list is the row position.
  The behaviour of the library is that of pandas 2.2.
\<close>

datatype frame = DfTests | DfOdis | DfT20s | Combined

type_synonym store = "frame \<Rightarrow> match_data list"

text \<open>
  The dtype \<^verbatim>\<open>pd.DataFrame\<close> infers for a column of integers and \<^verbatim>\<open>None\<close>, and for
  the column of match numbers, which may hold strings as well: a column of
  nothing but \<^verbatim>\<open>None\<close>, and a column with a string in it, stays a column of
  objects; integers with \<^verbatim>\<open>None\<close> among them become floats; integers alone stay
  integers. Every other column of a match table holds strings, lists or
  dictionaries and is a column of objects.
\<close>

datatype dtype = ObjectDtype | Float64 | Int64

definition int_column_dtype :: "int option list \<Rightarrow> dtype" where
  "int_column_dtype vs =
     (if list_all (\<lambda>v. v = None) vs then ObjectDtype
      else if None \<in> set vs then Float64 else Int64)"

definition is_str :: "cell \<Rightarrow> bool" where
  "is_str c = (case c of Str s \<Rightarrow> True | _ \<Rightarrow> False)"

definition cell_column_dtype :: "cell list \<Rightarrow> dtype" where
  "cell_column_dtype cs =
     (if list_ex is_str cs \<or> list_all (\<lambda>c. c = Null) cs then ObjectDtype
      else if Null \<in> set cs then Float64 else Int64)"

definition all_object :: "match_data list \<Rightarrow> bool" where
  "all_object rows =
     (int_column_dtype (map outcome_by rows) = ObjectDtype \<and>
      int_column_dtype (map balls_per_over rows) = ObjectDtype \<and>
      int_column_dtype (map match_type_number rows) = ObjectDtype \<and>
      int_column_dtype (map overs rows) = ObjectDtype \<and>
      cell_column_dtype (map event_match_number rows) = ObjectDtype)"

text \<open>\<^verbatim>\<open>pd.isna(x) or x == ""\<close> on a cell holding a string or \<^verbatim>\<open>None\<close>.\<close>

definition is_missing :: "string option \<Rightarrow> bool" where
  "is_missing x = (x = None \<or> x = Some [])"

text \<open>
  One element of \<^verbatim>\<open>series == value\<close> and of \<^verbatim>\<open>series != value\<close>: a missing element,
  or a missing \<^verbatim>\<open>value\<close>, is equal to nothing.
\<close>

definition series_eq :: "string option \<Rightarrow> string option \<Rightarrow> bool" where
  "series_eq x v = (case (x, v) of (Some a, Some b) \<Rightarrow> a = b | _ \<Rightarrow> False)"

definition series_ne :: "string option \<Rightarrow> string option \<Rightarrow> bool" where
  "series_ne x v = (\<not> series_eq x v)"

text \<open>\<^verbatim>\<open>df.at[idx, col] = v\<close>, as an update of row \<open>idx\<close> of frame \<open>df\<close>.\<close>

definition at_set :: "frame \<Rightarrow> nat \<Rightarrow> (match_data \<Rightarrow> match_data) \<Rightarrow> store \<Rightarrow> store" where
  "at_set df idx upd s = s(df := (s df)[idx := upd (s df ! idx)])"

section \<open>The Imputer: \<^verbatim>\<open>DataTransformer.impute_match_fields\<close>\<close>

text \<open>Lines 182-185: the boolean mask of the city lookup.\<close>

definition city_mask :: "match_data \<Rightarrow> match_data \<Rightarrow> bool" where
  "city_mask row u =
     (series_eq (venue u) (venue row) \<and> city u \<noteq> None \<and> series_ne (city u) (Some []))"

text \<open>Lines 192 and 197: \<^verbatim>\<open>tuple(sorted(teams))\<close>.\<close>

definition teams_key :: "match_data \<Rightarrow> string list" where
  "teams_key r = sort (teams r)"

text \<open>Lines 196-199: the mask of the first event-name lookup.\<close>

definition event_mask1 :: "match_data \<Rightarrow> match_data \<Rightarrow> bool" where
  "event_mask1 row u =
     (event_name u \<noteq> None \<and> series_ne (event_name u) (Some []) \<and>
      teams_key u = teams_key row \<and>
      (series_eq (city u) (city row) \<or>
       (is_missing (city row) \<and> series_ne (city u) (Some []))))"

text \<open>Lines 205-206: the mask of the second event-name lookup.\<close>

definition event_mask2 :: "match_data \<Rightarrow> match_data \<Rightarrow> bool" where
  "event_mask2 row u =
     (event_name u \<noteq> None \<and> series_ne (event_name u) (Some []) \<and>
      teams_key u = teams_key row)"

text \<open>Lines 181-187, given the row as the block reads it.\<close>

definition impute_city :: "frame \<Rightarrow> frame \<Rightarrow> nat \<Rightarrow> match_data \<Rightarrow> store \<Rightarrow> store" where
  "impute_city df combined idx row s =
     (if is_missing (city row)
      then (case filter (city_mask row) (s combined) of
              [] \<Rightarrow> s
            | u # _ \<Rightarrow> at_set df idx (\<lambda>r. r\<lparr>city := city u\<rparr>) s)
      else s)"

text \<open>Lines 188-189.\<close>

definition impute_outcome :: "frame \<Rightarrow> nat \<Rightarrow> match_data \<Rightarrow> store \<Rightarrow> store" where
  "impute_outcome df idx row s =
     (if outcome_type row \<noteq> None \<and> is_missing (outcome_result row)
      then at_set df idx (\<lambda>r. r\<lparr>outcome_result := Some ''win''\<rparr>) s
      else s)"

text \<open>Lines 190-209.\<close>

definition impute_event :: "frame \<Rightarrow> frame \<Rightarrow> nat \<Rightarrow> match_data \<Rightarrow> store \<Rightarrow> store" where
  "impute_event df combined idx row s =
     (if is_missing (event_name row)
      then (case filter (event_mask1 row) (s combined) of
              u # _ \<Rightarrow> at_set df idx (\<lambda>r. r\<lparr>event_name := event_name u\<rparr>) s
            | [] \<Rightarrow>
                (case filter (event_mask2 row) (s combined) of
                   u # _ \<Rightarrow> at_set df idx (\<lambda>r. r\<lparr>event_name := event_name u\<rparr>) s
                 | [] \<Rightarrow> s))
      else s)"

text \<open>
  \<^verbatim>\<open>for idx, row in df.iterrows()\<close>: \<^verbatim>\<open>iterrows\<close> takes \<^verbatim>\<open>df.values\<close> once, when the loop
  starts. When the columns of the frame have more than one dtype this is a new
  array, and \<^verbatim>\<open>row\<close> is a copy of the row as it was then. When every column is a
  column of objects it is the frame's own array, and \<^verbatim>\<open>row\<close> is a view: a read
  of \<^verbatim>\<open>row\<close> sees what \<^verbatim>\<open>df.at\<close> has written to the row since.
\<close>

definition read_row :: "bool \<Rightarrow> frame \<Rightarrow> nat \<Rightarrow> match_data \<Rightarrow> store \<Rightarrow> match_data" where
  "read_row view df idx row s = (if view then s df ! idx else row)"

datatype rule = CityRule | OutcomeRule | EventRule

definition apply_rule ::
  "bool \<Rightarrow> frame \<Rightarrow> frame \<Rightarrow> nat \<Rightarrow> match_data \<Rightarrow> rule \<Rightarrow> store \<Rightarrow> store" where
  "apply_rule view df combined idx row rl s =
     (case rl of
        CityRule \<Rightarrow> impute_city df combined idx (read_row view df idx row s) s
      | OutcomeRule \<Rightarrow> impute_outcome df idx (read_row view df idx row s) s
      | EventRule \<Rightarrow> impute_event df combined idx (read_row view df idx row s) s)"

text \<open>The body of the loop of line 180: the three blocks in the order of the source.\<close>

definition impute_row :: "bool \<Rightarrow> frame \<Rightarrow> frame \<Rightarrow> nat \<Rightarrow> match_data \<Rightarrow> store \<Rightarrow> store" where
  "impute_row view df combined idx row s =
     apply_rule view df combined idx row EventRule
       (apply_rule view df combined idx row OutcomeRule
         (apply_rule view df combined idx row CityRule s))"

fun impute_loop ::
  "(nat \<Rightarrow> match_data \<Rightarrow> store \<Rightarrow> store) \<Rightarrow> (nat \<times> match_data) list \<Rightarrow> store \<Rightarrow> store" where
  "impute_loop body [] s = s"
| "impute_loop body ((idx, row) # rest) s = impute_loop body rest (body idx row s)"

definition impute_match_fields :: "frame \<Rightarrow> frame \<Rightarrow> store \<Rightarrow> store" where
  "impute_match_fields df combined s =
     impute_loop (impute_row (all_object (s df)) df combined) (enumerate 0 (s df)) s"

text \<open>
  The same loop with the blocks of its body in another order, which the source
  does not contain: it is what the specification's remark on the order of the
  rules speaks of.
\<close>

definition impute_row_in ::
  "rule list \<Rightarrow> bool \<Rightarrow> frame \<Rightarrow> frame \<Rightarrow> nat \<Rightarrow> match_data \<Rightarrow> store \<Rightarrow> store" where
  "impute_row_in order view df combined idx row s =
     fold (apply_rule view df combined idx row) order s"

definition impute_match_fields_in :: "rule list \<Rightarrow> frame \<Rightarrow> frame \<Rightarrow> store \<Rightarrow> store" where
  "impute_match_fields_in order df combined s =
     impute_loop (impute_row_in order (all_object (s df)) df combined) (enumerate 0 (s df)) s"

section \<open>The Sequencer: \<^verbatim>\<open>DataTransformer.fill_event_match_number\<close>\<close>

text \<open>
  Lines 160-161: \<^verbatim>\<open>replace("", pd.NA)\<close>, then \<^verbatim>\<open>pd.to_numeric(errors="coerce")\<close>. What
  pandas reads as a number in a non-empty string is the parameter \<open>to_numeric\<close>;
  the numbers are integers.
\<close>

definition normalise :: "(string \<Rightarrow> int option) \<Rightarrow> cell \<Rightarrow> int option" where
  "normalise to_numeric c =
     (case c of
        Null \<Rightarrow> None
      | Num n \<Rightarrow> Some n
      | Str s \<Rightarrow> if s = [] then None else to_numeric s)"

definition number_cell :: "int option \<Rightarrow> cell" where
  "number_cell v = (case v of None \<Rightarrow> Null | Some n \<Rightarrow> Num n)"

text \<open>
  A column that holds \<^verbatim>\<open>NaN\<close> is a column of 64-bit floats. \<open>f64 n\<close> is the integer
  such a column holds for the integer \<open>n\<close>: \<open>n\<close> itself up to \<open>2 ^ 53\<close>, beyond that
  the nearest integer with 53 significant bits, the even one of two at the same
  distance. It is written out for the 64-bit integers, \<open>\<bar>n\<bar> < 2 ^ 63\<close>.
\<close>

definition f64 :: "int \<Rightarrow> int" where
  "f64 n =
     (let a = \<bar>n\<bar>
      in if a \<le> 2 ^ 53 then n
         else (case find (\<lambda>e. a < 2 ^ (53 + e)) [1..<11] of
                 None \<Rightarrow> n
               | Some e \<Rightarrow>
                   (let q = 2 ^ e;
                        d = a div q;
                        r = a mod q;
                        m = (if 2 * r < q then d
                             else if q < 2 * r then d + 1
                             else if even d then d else d + 1)
                    in sgn n * (m * q))))"

text \<open>The values of a column that are not \<^verbatim>\<open>NaN\<close>, which \<^verbatim>\<open>notna().any()\<close> and \<^verbatim>\<open>max()\<close> see.\<close>

fun present :: "int option list \<Rightarrow> int list" where
  "present [] = []"
| "present (None # vs) = present vs"
| "present (Some n # vs) = n # present vs"

text \<open>
  Line 168: the rows under the mask receive \<^verbatim>\<open>start, start + 1, ...\<close> in row order,
  each stored as the column stores it (\<open>stored\<close>).
\<close>

fun assign_range :: "(int \<Rightarrow> int) \<Rightarrow> int \<Rightarrow> int option list \<Rightarrow> int option list" where
  "assign_range stored start [] = []"
| "assign_range stored start (None # vs) = Some (stored start) # assign_range stored (start + 1) vs"
| "assign_range stored start (Some n # vs) = Some n # assign_range stored start vs"

text \<open>
  Lines 158-169, for a group cut from a table whose column of match numbers has
  dtype \<open>dt\<close>. \<^verbatim>\<open>sort_values\<close> is modelled as a stable sort; match ids are file names
  and compare as strings. In a float column the numbers are held as floats since
  the table was built; in a column of objects they become floats when
  \<^verbatim>\<open>to_numeric\<close> has a \<^verbatim>\<open>NaN\<close> to store; a group with a \<^verbatim>\<open>NaN\<close> is a float column when
  the range is assigned. Returned with the rows: whether the column of the group
  is a float column.
\<close>

definition fill_group ::
  "(string \<Rightarrow> int option) \<Rightarrow> dtype \<Rightarrow> match_data list \<Rightarrow> match_data list \<times> bool" where
  "fill_group to_numeric dt group0 =
     (let group = sort_key match_id group0;
          parsed = map (\<lambda>r. normalise to_numeric (event_match_number r)) group;
          is_float = (dt = Float64 \<or> (dt = ObjectDtype \<and> None \<in> set parsed));
          col = (if is_float then map (map_option f64) parsed else parsed);
          col' = (if None \<in> set col
                  then let start = (case present col of [] \<Rightarrow> 1 | n # ns \<Rightarrow> fold max ns n + 1)
                       in assign_range f64 start col
                  else col)
      in (map (\<lambda>(r, v). r\<lparr>event_match_number := number_cell v\<rparr>) (zip group col'), is_float))"

text \<open>
  Line 171: \<^verbatim>\<open>groupby(["season", "event_name"])\<close> leaves out every row with a missing
  key (pandas' default \<^verbatim>\<open>dropna=True\<close>) and visits the groups in key order. \<^verbatim>\<open>apply\<close>
  concatenates what \<^verbatim>\<open>fill_group\<close> returns: the column is a float column when that
  of one group is, and the rows come in key order, or, when no group came back
  in another order than it went in, in the order they have in the frame. A
  frame built from an empty list has no columns, and grouping it by \<^verbatim>\<open>season\<close>
  raises \<^verbatim>\<open>KeyError\<close>.
\<close>

definition group_key :: "match_data \<Rightarrow> (string \<times> string) option" where
  "group_key r =
     (case season r of
        None \<Rightarrow> None
      | Some se \<Rightarrow> (case event_name r of None \<Rightarrow> None | Some ev \<Rightarrow> Some (se, ev)))"

definition group_keys :: "match_data list \<Rightarrow> (string \<times> string) list" where
  "group_keys df = sort (remdups (List.map_filter group_key df))"

definition group_of :: "match_data list \<Rightarrow> string \<times> string \<Rightarrow> match_data list" where
  "group_of df k = filter (\<lambda>r. group_key r = Some k) df"

definition as_float :: "match_data \<Rightarrow> match_data" where
  "as_float r =
     r\<lparr>event_match_number :=
         (case event_match_number r of Num n \<Rightarrow> Num (f64 n) | c \<Rightarrow> c)\<rparr>"

definition filled_groups ::
  "(string \<Rightarrow> int option) \<Rightarrow> match_data list \<Rightarrow> string \<times> string \<Rightarrow> match_data list" where
  "filled_groups to_numeric df =
     (let dt = cell_column_dtype (map event_match_number df);
          any_float = list_ex (\<lambda>k. snd (fill_group to_numeric dt (group_of df k))) (group_keys df)
      in (\<lambda>k. let rows = fst (fill_group to_numeric dt (group_of df k))
               in if any_float then map as_float rows else rows))"

fun reindex ::
  "match_data list \<Rightarrow> (string \<times> string \<Rightarrow> match_data list) \<Rightarrow> match_data list" where
  "reindex [] filled = []"
| "reindex (r # rs) filled =
     (case group_key r of
        None \<Rightarrow> reindex rs filled
      | Some k \<Rightarrow>
          (case filled k of
             [] \<Rightarrow> reindex rs filled
           | x # xs \<Rightarrow> x # reindex rs (filled(k := xs))))"

definition fill_event_match_number ::
  "(string \<Rightarrow> int option) \<Rightarrow> match_data list \<Rightarrow> error + match_data list" where
  "fill_event_match_number to_numeric df =
     (if df = [] then Inl KeyError
      else let filled = filled_groups to_numeric df
           in Inr (if list_all (\<lambda>k. sort_key match_id (group_of df k) = group_of df k)
                         (group_keys df)
                   then reindex df filled
                   else concat (map filled (group_keys df))))"

section \<open>\<^verbatim>\<open>DataTransformer.get_dataframes\<close>\<close>

text \<open>Lines 222-224: the three frames of the tiers.\<close>

definition make_frames :: "transformer \<Rightarrow> store" where
  "make_frames st =
     (\<lambda>f. case f of
        DfTests \<Rightarrow> tests st
      | DfOdis \<Rightarrow> odis st
      | DfT20s \<Rightarrow> t20s st
      | Combined \<Rightarrow> [])"

text \<open>
  Line 232, \<^verbatim>\<open>pd.concat([df_tests, df_odis, df_t20s], ignore_index=True)\<close>: the empty
  frames are left out; when one frame is left the result shares its data, so
  \<^verbatim>\<open>combined\<close> is that frame; otherwise the rows are copied into a new frame.
\<close>

definition pd_concat :: "store \<Rightarrow> frame \<times> store" where
  "pd_concat s =
     (case filter (\<lambda>f. s f \<noteq> []) [DfTests, DfOdis, DfT20s] of
        [f] \<Rightarrow> (f, s)
      | _ \<Rightarrow> (Combined, s(Combined := s DfTests @ s DfOdis @ s DfT20s)))"

text \<open>Lines 232-236.\<close>

definition impute_all :: "store \<Rightarrow> store" where
  "impute_all s =
     (let (combined, s1) = pd_concat s
      in impute_match_fields DfT20s combined
           (impute_match_fields DfOdis combined
             (impute_match_fields DfTests combined s1)))"

text \<open>Lines 222-249.\<close>

definition get_dataframes ::
  "(string \<Rightarrow> int option) \<Rightarrow> transformer \<Rightarrow>
     error + (match_data list \<times> match_data list \<times> match_data list \<times> delivery_record list)" where
  "get_dataframes to_numeric st =
     (let s = impute_all (make_frames st)
      in case fill_event_match_number to_numeric (s DfTests) of
           Inl e \<Rightarrow> Inl e
         | Inr df_tests \<Rightarrow>
             (case fill_event_match_number to_numeric (s DfOdis) of
                Inl e \<Rightarrow> Inl e
              | Inr df_odis \<Rightarrow>
                  (case fill_event_match_number to_numeric (s DfT20s) of
                     Inl e \<Rightarrow> Inl e
                   | Inr df_t20s \<Rightarrow> Inr (df_tests, df_odis, df_t20s, deliveries st))))"

section \<open>Concrete inputs\<close>

text \<open>The document \<^verbatim>\<open>{}\<close> and the row it flattens to.\<close>

definition empty_info :: info where
  "empty_info =
     \<lparr> i_match_type = None, i_season = None, i_venue = None, i_city = None,
       i_dates = [], i_teams = [],
       i_toss = \<lparr> t_winner = None, t_decision = None \<rparr>,
       i_outcome = \<lparr> o_result = None, o_winner = None, o_by = [] \<rparr>,
       i_event = \<lparr> ev_name = None, ev_match_number = Null \<rparr>,
       i_balls_per_over = None, i_match_type_number = None, i_overs = None,
       i_gender = None, i_officials = None, i_player_of_match = None,
       i_team_type = None \<rparr>"

definition empty_row :: match_data where
  "empty_row =
     \<lparr> match_id = [], match_type = [], season = None, venue = None, city = None,
       dates = [], teams = [], toss_winner = None, toss_decision = None,
       outcome_result = None, outcome_winner = None, outcome_type = None,
       outcome_by = None, event_name = None, event_match_number = Null,
       balls_per_over = None, match_type_number = None, overs = None, gender = None,
       officials = None, player_of_match = None, team_type = None \<rparr>"

text \<open>A ball hit for four, and a ball with two dismissals recorded.\<close>

definition four_ball :: delivery where
  "four_ball =
     \<lparr> dl_batter = Some ''A'', dl_bowler = Some ''B'', dl_non_striker = Some ''C'',
       dl_runs = \<lparr> r_batter = Some 4, r_extras = Some 0, r_total = Some 4 \<rparr>,
       dl_wickets = [] \<rparr>"

definition two_wickets :: "wicket_json list" where
  "two_wickets =
     [\<lparr> w_kind = Some ''caught'', w_player_out = Some ''A'',
        w_fielders = [\<lparr> f_name = Some ''F'' \<rparr>] \<rparr>,
      \<lparr> w_kind = Some ''run out'', w_player_out = Some ''C'',
        w_fielders = [\<lparr> f_name = Some ''G'' \<rparr>, \<lparr> f_name = None \<rparr>, \<lparr> f_name = Some ''H'' \<rparr>] \<rparr>]"

definition wicket_ball :: delivery where
  "wicket_ball = four_ball\<lparr> dl_wickets := two_wickets \<rparr>"

definition one_over :: "delivery list \<Rightarrow> inning list" where
  "one_over ds = [\<lparr> in_team = Some ''X'', in_overs = [\<lparr> ov_over = Some 0, ov_deliveries = ds \<rparr>] \<rparr>]"

text \<open>
  Four files: a match of type \<^verbatim>\<open>Test ODI\<close> with an over of two balls, the second a
  ball with two dismissals; a match of type \<^verbatim>\<open>MDM\<close> with one over of one ball; a
  file that does not parse; and a document whose \<^verbatim>\<open>match_type\<close> is JSON null, with
  one over of one ball.
\<close>

definition test_odi_json :: match_json where
  "test_odi_json =
     \<lparr> mj_info = empty_info\<lparr>i_match_type := Some (Str ''Test ODI'')\<rparr>,
       mj_innings = one_over [four_ball, wicket_ball] \<rparr>"

definition mdm_json :: match_json where
  "mdm_json =
     \<lparr> mj_info = empty_info\<lparr>i_match_type := Some (Str ''MDM'')\<rparr>,
       mj_innings = one_over [four_ball] \<rparr>"

definition null_type_json :: match_json where
  "null_type_json =
     \<lparr> mj_info = empty_info\<lparr>i_match_type := Some Null\<rparr>,
       mj_innings = one_over [four_ball] \<rparr>"

definition four_files :: "(string \<times> match_json option) list" where
  "four_files =
     [(''data/1.json'', Some test_odi_json), (''data/2.json'', Some mdm_json),
      (''data/3.json'', None), (''data/4.json'', Some null_type_json)]"

text \<open>A document whose outcome was decided by 10 runs.\<close>

definition by_runs_json :: match_json where
  "by_runs_json =
     \<lparr> mj_info = empty_info\<lparr>i_outcome := \<lparr> o_result = None, o_winner = Some ''X'',
                                           o_by = [(''runs'', 10)] \<rparr>\<rparr>,
       mj_innings = [] \<rparr>"

section \<open>The numbers of a group before sequencing\<close>

text \<open>
  The numbers the rows of a group hold once the column is normalised, in ascending
  \<^verbatim>\<open>match_id\<close> order, and the first number the Sequencer hands out: one above the
  largest number present, or 1 when none is present.
\<close>

definition old_numbers :: "(string \<Rightarrow> int option) \<Rightarrow> match_data list \<Rightarrow> int option list" where
  "old_numbers to_numeric g =
     map (\<lambda>r. normalise to_numeric (event_match_number r)) (sort_key match_id g)"

definition group_start :: "(string \<Rightarrow> int option) \<Rightarrow> match_data list \<Rightarrow> int" where
  "group_start to_numeric g =
     (if present (old_numbers to_numeric g) = [] then 1
      else Max (set (present (old_numbers to_numeric g))) + 1)"

text \<open>
  The numbers present in a group leave room for as many new ones as the group
  has rows, within the integers a float column holds exactly.
\<close>

definition exact_range :: "(string \<Rightarrow> int option) \<Rightarrow> match_data list \<Rightarrow> bool" where
  "exact_range to_numeric g =
     (list_all (\<lambda>m. - (2 ^ 53) \<le> m \<and> m + int (length g) \<le> 2 ^ 53)
        (present (old_numbers to_numeric g)) \<and>
      int (length g) \<le> 2 ^ 53)"

text \<open>
  Rows of one season of one event, given out of \<^verbatim>\<open>match_id\<close> order: the group of
  the specification's scenario, numbered null, 2, null in \<^verbatim>\<open>match_id\<close> order; a
  group in which two rows already carry the number 2; a group with a row
  numbered 0; and a group with a row numbered \<open>2 ^ 53\<close>.
\<close>

definition cup_row :: "string \<Rightarrow> cell \<Rightarrow> match_data" where
  "cup_row mid number =
     empty_row\<lparr> match_id := mid, season := Some ''2020'', event_name := Some ''Cup'',
                event_match_number := number \<rparr>"

definition scenario_group :: "match_data list" where
  "scenario_group = [cup_row ''3'' Null, cup_row ''2'' (Num 2), cup_row ''1'' (Str [])]"

definition duplicate_group :: "match_data list" where
  "duplicate_group = [cup_row ''1'' (Num 2), cup_row ''2'' (Num 2), cup_row ''3'' Null]"

definition zero_group :: "match_data list" where
  "zero_group = [cup_row ''1'' (Num 0), cup_row ''2'' Null]"

definition big_group :: "match_data list" where
  "big_group = [cup_row ''1'' (Num (2 ^ 53)), cup_row ''2'' Null]"

text \<open>
  Three files, one per tier, all of season 2020: a test match whose document has
  no event, and an ODI and a T20 match of the event Cup. No team plays twice.
\<close>

definition season_json :: "string \<Rightarrow> string list \<Rightarrow> string option \<Rightarrow> match_json" where
  "season_json mt ts ev =
     \<lparr> mj_info = empty_info\<lparr> i_match_type := Some (Str mt), i_season := Some ''2020'',
                              i_teams := ts,
                              i_event := \<lparr> ev_name = ev, ev_match_number = Null \<rparr> \<rparr>,
       mj_innings = [] \<rparr>"

definition lost_files :: "(string \<times> match_json option) list" where
  "lost_files =
     [(''data/10.json'', Some (season_json ''Test'' [''A'', ''B''] None)),
      (''data/11.json'', Some (season_json ''ODI'' [''C'', ''D''] (Some ''Cup''))),
      (''data/12.json'', Some (season_json ''T20'' [''E'', ''F''] (Some ''Cup'')))]"

text \<open>The match ids of the three match tables that \<^verbatim>\<open>get_dataframes\<close> returns.\<close>

definition output_ids ::
  "error + (match_data list \<times> match_data list \<times> match_data list \<times> delivery_record list) \<Rightarrow>
     error + (string list \<times> string list \<times> string list)" where
  "output_ids res =
     (case res of
        Inl e \<Rightarrow> Inl e
      | Inr (df_tests, df_odis, df_t20s, df_deliveries) \<Rightarrow>
          Inr (map match_id df_tests, map match_id df_odis, map match_id df_t20s))"

text \<open>
  The table \<^verbatim>\<open>fill_event_match_number\<close> returns, when it returns one, and the numbers
  its rows of one group carry.
\<close>

definition sequenced :: "(string \<Rightarrow> int option) \<Rightarrow> match_data list \<Rightarrow> match_data list" where
  "sequenced to_numeric df =
     (case fill_event_match_number to_numeric df of Inl e \<Rightarrow> [] | Inr out \<Rightarrow> out)"

definition final_numbers :: "match_data list \<Rightarrow> string \<times> string \<Rightarrow> cell list" where
  "final_numbers out k = map event_match_number (group_of out k)"

definition cup :: "string \<times> string" where
  "cup = (''2020'', ''Cup'')"

section \<open>What one pass of the Imputer leaves in a row\<close>

text \<open>
  The values the three blocks of the loop body write: \<open>row\<close> is the row as the
  block reads it, \<open>universe\<close> the rows of \<^verbatim>\<open>combined\<close>, \<open>old\<close> the value in the
  frame.
\<close>

definition new_city :: "match_data list \<Rightarrow> match_data \<Rightarrow> string option \<Rightarrow> string option" where
  "new_city universe row old =
     (if is_missing (city row)
      then (case find (city_mask row) universe of None \<Rightarrow> old | Some u \<Rightarrow> city u)
      else old)"

definition new_outcome_result :: "match_data \<Rightarrow> string option \<Rightarrow> string option" where
  "new_outcome_result row old =
     (if outcome_type row \<noteq> None \<and> is_missing (outcome_result row) then Some ''win'' else old)"

definition new_event_name :: "match_data list \<Rightarrow> match_data \<Rightarrow> string option \<Rightarrow> string option" where
  "new_event_name universe row old =
     (if is_missing (event_name row)
      then (case find (event_mask1 row) universe of
              Some u \<Rightarrow> event_name u
            | None \<Rightarrow> (case find (event_mask2 row) universe of
                         Some u \<Rightarrow> event_name u
                       | None \<Rightarrow> old))
      else old)"

definition rule_update :: "match_data list \<Rightarrow> match_data \<Rightarrow> rule \<Rightarrow> match_data \<Rightarrow> match_data" where
  "rule_update universe row rl =
     (case rl of
        CityRule \<Rightarrow> (\<lambda>cur. cur\<lparr>city := new_city universe row (city cur)\<rparr>)
      | OutcomeRule \<Rightarrow>
          (\<lambda>cur. cur\<lparr>outcome_result := new_outcome_result row (outcome_result cur)\<rparr>)
      | EventRule \<Rightarrow>
          (\<lambda>cur. cur\<lparr>event_name := new_event_name universe row (event_name cur)\<rparr>))"

text \<open>
  The row of the frame after the blocks \<open>order\<close> have run on it: a block reads
  the copy \<open>row\<close>, or, when rows are views, the row of the frame as it is.
\<close>

fun rules_update ::
  "bool \<Rightarrow> match_data list \<Rightarrow> match_data \<Rightarrow> rule list \<Rightarrow> match_data \<Rightarrow> match_data" where
  "rules_update view universe row [] cur = cur"
| "rules_update view universe row (rl # order) cur =
     rules_update view universe row order
       (rule_update universe (if view then cur else row) rl cur)"

definition imputed :: "bool \<Rightarrow> match_data list \<Rightarrow> match_data \<Rightarrow> match_data" where
  "imputed view universe row =
     rules_update view universe row [CityRule, OutcomeRule, EventRule] row"

text \<open>
  While the loop body works on row \<open>idx\<close>, the universe is the list \<open>U\<close> it was
  when the body began, but for row \<open>idx\<close> when the universe is the frame itself.
\<close>

definition universe_but :: "frame \<Rightarrow> frame \<Rightarrow> nat \<Rightarrow> match_data list \<Rightarrow> store \<Rightarrow> bool" where
  "universe_but df combined idx U s =
     (if df = combined then s df = U[idx := s df ! idx] else s combined = U)"


text \<open>
  The universe of a run of \<^verbatim>\<open>get_dataframes\<close>: the frame \<^verbatim>\<open>combined\<close> names, its rows
  when \<^verbatim>\<open>pd.concat\<close> has returned and after the three calls of the Imputer; and
  whether exactly one of the three lists of the transformer has a record.
\<close>

definition universe_frame :: "transformer \<Rightarrow> frame" where
  "universe_frame st = fst (pd_concat (make_frames st))"

definition universe_before :: "transformer \<Rightarrow> match_data list" where
  "universe_before st = snd (pd_concat (make_frames st)) (universe_frame st)"



text \<open>
  The event-name backfill in the words of the specification: the first pass takes
  the universe records with an event name and the target's team key whose city
  is the target's, or, when the target has no city, with any city; the second
  pass drops the city condition. "Any city" is read as no condition on the city
  in \<open>spec_pass1\<close>, and as a city that is neither null nor empty in
  \<open>spec_pass1_city\<close>.
\<close>

definition spec_pass1 :: "match_data \<Rightarrow> match_data \<Rightarrow> bool" where
  "spec_pass1 target u =
     (\<not> is_missing (event_name u) \<and> teams_key u = teams_key target \<and>
      (is_missing (city target) \<or> city u = city target))"

definition spec_pass1_city :: "match_data \<Rightarrow> match_data \<Rightarrow> bool" where
  "spec_pass1_city target u =
     (\<not> is_missing (event_name u) \<and> teams_key u = teams_key target \<and>
      (if is_missing (city target) then \<not> is_missing (city u) else city u = city target))"

definition spec_pass2 :: "match_data \<Rightarrow> match_data \<Rightarrow> bool" where
  "spec_pass2 target u = (\<not> is_missing (event_name u) \<and> teams_key u = teams_key target)"

definition spec_event_name ::
  "(match_data \<Rightarrow> match_data \<Rightarrow> bool) \<Rightarrow> match_data list \<Rightarrow> match_data \<Rightarrow> string option" where
  "spec_event_name pass1 universe target =
     (case find (pass1 target) universe of
        Some u \<Rightarrow> event_name u
      | None \<Rightarrow> (case find (spec_pass2 target) universe of
                   Some u \<Rightarrow> event_name u
                 | None \<Rightarrow> None))"

text \<open>
  Two matches at one venue, one with city Mumbai and one with the empty string
  for a city: as a test and an ODI match, and both as test matches with no match
  in another tier.
\<close>

definition mumbai_match :: match_data where
  "mumbai_match = empty_row\<lparr> match_id := ''1'', venue := Some ''Wankhede'', city := Some ''Mumbai'' \<rparr>"

definition nowhere_match :: match_data where
  "nowhere_match = empty_row\<lparr> match_id := ''2'', venue := Some ''Wankhede'', city := Some [] \<rparr>"

definition two_tier_lists :: transformer where
  "two_tier_lists = \<lparr> tests = [mumbai_match], odis = [nowhere_match], t20s = [], deliveries = [] \<rparr>"


definition two_tier_store :: store where
  "two_tier_store = snd (pd_concat (make_frames two_tier_lists))"

text \<open>
  A T20 match between X and Y with six balls to the over and without venue, city
  or event name, and test matches between the same teams with event names E1,
  E2, E3 and cities the empty string, null, and Pune; the same without the test
  match whose city is null.
\<close>

definition xy_target :: match_data where
  "xy_target = empty_row\<lparr> match_id := ''9'', teams := [''X'', ''Y''], balls_per_over := Some 6 \<rparr>"

definition xy_empty_city :: match_data where
  "xy_empty_city =
     empty_row\<lparr> match_id := ''5'', teams := [''X'', ''Y''], city := Some [], event_name := Some ''E1'' \<rparr>"

definition xy_null_city :: match_data where
  "xy_null_city =
     empty_row\<lparr> match_id := ''6'', teams := [''Y'', ''X''], city := None, event_name := Some ''E2'' \<rparr>"

definition xy_pune :: match_data where
  "xy_pune =
     empty_row\<lparr> match_id := ''7'', teams := [''X'', ''Y''], city := Some ''Pune'', event_name := Some ''E3'' \<rparr>"

definition xy_null_store :: store where
  "xy_null_store =
     snd (pd_concat (make_frames
       \<lparr> tests = [xy_empty_city, xy_null_city, xy_pune], odis = [], t20s = [xy_target],
         deliveries = [] \<rparr>))"

definition xy_store :: store where
  "xy_store =
     snd (pd_concat (make_frames
       \<lparr> tests = [xy_empty_city, xy_pune], odis = [], t20s = [xy_target], deliveries = [] \<rparr>))"

text \<open>
  A test match between X and Y at the Wankhede, with the empty string for a city,
  no result and no event name, and three ODI matches: one at the same venue with
  city Mumbai, and two between X and Y with event names E1 and E2, played in
  Delhi and in Mumbai. Once the test match is recorded as won by 10 runs, which
  gives its table a numeric column, and once without a margin, all columns of
  its table being columns of objects.
\<close>

definition wankhede_test :: match_data where
  "wankhede_test =
     empty_row\<lparr> match_id := ''1'', venue := Some ''Wankhede'', city := Some [],
                teams := [''X'', ''Y''], outcome_winner := Some ''X'' \<rparr>"

definition evidence_odis :: "match_data list" where
  "evidence_odis =
     [empty_row\<lparr> match_id := ''2'', venue := Some ''Wankhede'', city := Some ''Mumbai'',
                 teams := [''P'', ''Q''] \<rparr>,
      empty_row\<lparr> match_id := ''3'', city := Some ''Delhi'', teams := [''Y'', ''X''],
                 event_name := Some ''E1'' \<rparr>,
      empty_row\<lparr> match_id := ''4'', city := Some ''Mumbai'', teams := [''X'', ''Y''],
                 event_name := Some ''E2'' \<rparr>]"

definition copy_store :: store where
  "copy_store =
     snd (pd_concat (make_frames
       \<lparr> tests = [wankhede_test\<lparr> outcome_type := Some ''runs'', outcome_by := Some 10 \<rparr>],
         odis = evidence_odis, t20s = [], deliveries = [] \<rparr>))"

definition view_store :: store where
  "view_store =
     snd (pd_concat (make_frames
       \<lparr> tests = [wankhede_test], odis = evidence_odis, t20s = [], deliveries = [] \<rparr>))"

text \<open>
  Four test matches and no match in another tier: one at the Wankhede in Mumbai
  with six balls to the over recorded; one between P and Q at the Wankhede with
  event name E1 and the empty string for a city; one between P and Q in Mumbai
  without an event name; one between P and Q in Mumbai with event name E2.
\<close>

definition alone_lists :: transformer where
  "alone_lists =
     \<lparr> tests =
         [empty_row\<lparr> match_id := ''1'', venue := Some ''Wankhede'', city := Some ''Mumbai'',
                     teams := [''A'', ''B''], balls_per_over := Some 6 \<rparr>,
          empty_row\<lparr> match_id := ''2'', venue := Some ''Wankhede'', city := Some [],
                     teams := [''P'', ''Q''], event_name := Some ''E1'' \<rparr>,
          empty_row\<lparr> match_id := ''3'', city := Some ''Mumbai'', teams := [''P'', ''Q''] \<rparr>,
          empty_row\<lparr> match_id := ''4'', city := Some ''Mumbai'', teams := [''P'', ''Q''],
                     event_name := Some ''E2'' \<rparr>],
       odis = [], t20s = [], deliveries = [] \<rparr>"

section \<open>The Flattener: bucketing and delivery extraction\<close>

text \<open>The source's \<^verbatim>\<open>in\<close> test is the contiguous-substring relation.\<close>

lemma contains_sublist: "contains sub s = sublist sub s"
  by (induction s) (auto simp: sublist_Cons_right)

lemma bucket_table:
  "table t (bucket md st) =
     (if first_tier (match_type md) = Some t then table t st @ [md] else table t st)"
  by (cases t) (auto simp: bucket_def first_tier_def contains_sublist)

lemma make_match_data_type: "match_type (make_match_data mj fp mt) = mt"
  by (simp add: make_match_data_def Let_def)

lemma process_match_raises:
  "lowered_type mj = Inl e \<Longrightarrow> process_match mj fp st = Inl e"
  by (simp add: process_match_def lowered_type_def)

lemma process_match_returns:
  "lowered_type mj = Inr mt \<Longrightarrow>
   process_match mj fp st =
     Inr ((bucket (make_match_data mj fp mt) st)
            \<lparr>deliveries := deliveries (bucket (make_match_data mj fp mt) st) @
               match_deliveries (match_id (make_match_data mj fp mt)) (mj_innings mj)\<rparr>)"
  by (simp add: process_match_def lowered_type_def Let_def)

lemma bucket_deliveries: "deliveries (bucket md st) = deliveries st"
  by (simp add: bucket_def)

lemma table_deliveries_update: "table t (st\<lparr>deliveries := ds\<rparr>) = table t st"
  by (cases t) simp_all

lemma table_process_match:
  "lowered_type mj = Inr mt \<Longrightarrow> process_match mj fp st = Inr st' \<Longrightarrow>
   table t st' =
     (if first_tier mt = Some t then table t st @ [make_match_data mj fp mt] else table t st)"
  by (auto simp: process_match_returns table_deliveries_update bucket_table make_match_data_type)

lemma table_process_files:
  "table t (process_files files st) = table t st @ rows_of_tier t files"
proof (induction files st rule: process_files.induct)
  case (1 st)
  then show ?case by simp
next
  case (2 file_path files st)
  then show ?case by simp
next
  case (3 file_path mj files st)
  show ?case
  proof (cases "lowered_type mj")
    case (Inl e)
    then have "process_match mj file_path st = Inl e"
      by (rule process_match_raises)
    with Inl 3(1) show ?thesis by simp
  next
    case (Inr mt)
    from process_match_returns [OF Inr]
    obtain st' where st': "process_match mj file_path st = Inr st'"
      by blast
    from table_process_match [OF Inr st'] 3(2) [OF st'] Inr st'
    show ?thesis by simp
  qed
qed

lemma match_deliveries_ids: "d \<in> set (match_deliveries mid inns) \<Longrightarrow> d_match_id d = mid"
  by (auto simp: match_deliveries_def inning_records_def over_records_def make_delivery_record_def
      in_set_enumerate_eq)

lemma over_records_length: "length (over_records mid i bt ov) = length (ov_deliveries ov)"
  by (simp add: over_records_def)

lemma inning_records_length:
  "length (inning_records mid i inn) = (\<Sum>ov\<leftarrow>in_overs inn. length (ov_deliveries ov))"
  by (simp add: inning_records_def length_concat comp_def over_records_length)

lemma match_deliveries_length_aux:
  "length (concat (map (\<lambda>(i, inn). inning_records mid (Suc i) inn) (enumerate n inns))) =
     (\<Sum>inn\<leftarrow>inns. \<Sum>ov\<leftarrow>in_overs inn. length (ov_deliveries ov))"
  by (induction inns arbitrary: n) (simp_all add: inning_records_length)

lemma match_deliveries_length:
  "length (match_deliveries mid inns) = (\<Sum>inn\<leftarrow>inns. \<Sum>ov\<leftarrow>in_overs inn. length (ov_deliveries ov))"
  by (simp add: match_deliveries_def match_deliveries_length_aux)

lemma four_files_types:
  "lowered_type test_odi_json = Inr ''test odi''"
  "lowered_type mdm_json = Inr ''mdm''"
  "lowered_type null_type_json = Inl AttributeError"
  by code_simp+

lemma four_files_tiers:
  "first_tier ''test odi'' = Some Test"
  "first_tier ''mdm'' = None"
  by code_simp+

lemma four_files_id: "match_id (make_match_data test_odi_json ''data/1.json'' ''test odi'') = ''1''"
  by code_simp

text \<open>
  C1. Every parsed record's row goes to exactly the first of the tables test, odi,
  t20 whose name is a substring of the lower-cased match type, and to no table
  when none is: one call of the Flattener on a document with a lower-cased match
  type returns, appends the row to table \<open>t\<close> when \<open>t\<close> is that first tier
  and leaves table \<open>t\<close> alone otherwise; on a document whose match type cannot
  be lower-cased it raises. After a whole run each table holds, in file order,
  the rows of exactly the parsed documents whose first tier it is.
\<close>

theorem flattener_first_bucket:
  "(\<forall>e. lowered_type mj = Inl e \<longrightarrow> process_match mj file_path st = Inl e) \<and>
   (\<forall>mt. lowered_type mj = Inr mt \<longrightarrow>
      (\<exists>st'. process_match mj file_path st = Inr st' \<and>
         match_type (make_match_data mj file_path mt) = mt \<and>
         table t st' =
           (if first_tier mt = Some t
            then table t st @ [make_match_data mj file_path mt] else table t st))) \<and>
   table t (process_files files init_transformer) = rows_of_tier t files"
proof -
  have "table t init_transformer = []"
    by (cases t) (simp_all add: init_transformer_def)
  moreover have "\<exists>st'. process_match mj file_path st = Inr st' \<and>
         match_type (make_match_data mj file_path mt) = mt \<and>
         table t st' =
           (if first_tier mt = Some t
            then table t st @ [make_match_data mj file_path mt] else table t st)"
    if "lowered_type mj = Inr mt" for mt
  proof -
    from process_match_returns [OF that]
    obtain st' where st': "process_match mj file_path st = Inr st'"
      by blast
    with table_process_match [OF that st'] show ?thesis
      by (simp add: make_match_data_type)
  qed
  ultimately show ?thesis
    by (simp add: process_match_raises table_process_files)
qed

text \<open>
  The run over the four files: the \<^verbatim>\<open>Test ODI\<close> match is in the test table only,
  the other files in no table.
\<close>

theorem flattener_first_bucket_witness:
  "lowered_type test_odi_json = Inr ''test odi'' \<and>
   map match_id (table Test (process_files four_files init_transformer)) = [''1''] \<and>
   table Odi (process_files four_files init_transformer) = [] \<and>
   table T20 (process_files four_files init_transformer) = []"
  using flattener_first_bucket [of test_odi_json "''data/1.json''" init_transformer Test four_files]
    flattener_first_bucket [of test_odi_json "''data/1.json''" init_transformer Odi four_files]
    flattener_first_bucket [of test_odi_json "''data/1.json''" init_transformer T20 four_files]
  by (simp add: four_files_def four_files_types four_files_tiers four_files_id)

text \<open>
  C2 as stated fails: the \<^verbatim>\<open>MDM\<close> match is in no match table, yet the deliveries
  table holds a row with its match id.
\<close>

theorem uncategorized_deliveries_counterexample:
  "lowered_type mdm_json = Inr ''mdm'' \<and> first_tier ''mdm'' = None \<and>
   map d_match_id (deliveries (process_files [(''data/2.json'', Some mdm_json)] init_transformer)) =
     [''2'']"
  by code_simp

text \<open>
  C2, amended. A record with a lower-cased match type that contains none of test,
  odi, t20 is left out of the three match tables; the deliveries table still
  receives one row per ball of the record, each carrying the record's match id.
  A record whose match type is present and not a string has no lower-cased
  match type: the Flattener raises on it and the run skips it, so that nothing
  of it is in any of the four tables.
\<close>

theorem uncategorized_only_leaves_match_tables:
  "(lowered_type mj = Inr mt \<and> first_tier mt = None \<longrightarrow>
      (\<exists>st'. process_match mj fp st = Inr st' \<and>
         tests st' = tests st \<and> odis st' = odis st \<and> t20s st' = t20s st \<and>
         deliveries st' =
           deliveries st @ match_deliveries (match_id (make_match_data mj fp mt)) (mj_innings mj) \<and>
         list_all (\<lambda>d. d_match_id d = match_id (make_match_data mj fp mt))
           (match_deliveries (match_id (make_match_data mj fp mt)) (mj_innings mj)) \<and>
         length (match_deliveries (match_id (make_match_data mj fp mt)) (mj_innings mj)) =
           (\<Sum>inn\<leftarrow>mj_innings mj. \<Sum>ov\<leftarrow>in_overs inn. length (ov_deliveries ov)))) \<and>
   (lowered_type mj = Inl e \<longrightarrow>
      process_match mj fp st = Inl e \<and>
      process_files ((fp, Some mj) # files) st = process_files files st)"
proof -
  have "\<exists>st'. process_match mj fp st = Inr st' \<and>
         tests st' = tests st \<and> odis st' = odis st \<and> t20s st' = t20s st \<and>
         deliveries st' =
           deliveries st @ match_deliveries (match_id (make_match_data mj fp mt)) (mj_innings mj)"
    if a: "lowered_type mj = Inr mt" and b: "first_tier mt = None"
  proof -
    from process_match_returns [OF a]
    obtain st' where st': "process_match mj fp st = Inr st'"
      by blast
    have "table t st' = table t st" for t
      using table_process_match [OF a st', of t] b by simp
    from this [of Test] this [of Odi] this [of T20]
    have "tests st' = tests st" "odis st' = odis st" "t20s st' = t20s st"
      by simp_all
    moreover have "deliveries st' =
        deliveries st @ match_deliveries (match_id (make_match_data mj fp mt)) (mj_innings mj)"
      using st' by (auto simp: process_match_returns [OF a] bucket_deliveries)
    ultimately show ?thesis
      using st' by simp
  qed
  moreover have "list_all (\<lambda>d. d_match_id d = mid) (match_deliveries mid inns)" for mid inns
    by (simp add: list_all_iff match_deliveries_ids)
  ultimately show ?thesis
    by (auto simp: match_deliveries_length process_match_raises)
qed

text \<open>
  The \<^verbatim>\<open>MDM\<close> match again: no match row, one delivery row; and the run over the
  document with a null match type, which leaves the four lists empty.
\<close>

lemma mdm_balls: "(\<Sum>inn\<leftarrow>mj_innings mdm_json. \<Sum>ov\<leftarrow>in_overs inn. length (ov_deliveries ov)) = 1"
  by (simp add: mdm_json_def one_over_def)

lemma mdm_run:
  "map d_match_id (deliveries (process_files [(''data/2.json'', Some mdm_json)] init_transformer)) = [''2'']"
  "process_files [(''data/2.json'', Some mdm_json)] init_transformer =
     (case process_match mdm_json ''data/2.json'' init_transformer of
        Inl e \<Rightarrow> init_transformer | Inr st' \<Rightarrow> st')"
  by code_simp (simp split: sum.splits)

theorem uncategorized_only_leaves_match_tables_witness:
  "lowered_type mdm_json = Inr ''mdm'' \<and> first_tier ''mdm'' = None \<and>
   tests (process_files [(''data/2.json'', Some mdm_json)] init_transformer) = [] \<and>
   odis (process_files [(''data/2.json'', Some mdm_json)] init_transformer) = [] \<and>
   t20s (process_files [(''data/2.json'', Some mdm_json)] init_transformer) = [] \<and>
   length (deliveries (process_files [(''data/2.json'', Some mdm_json)] init_transformer)) = 1 \<and>
   lowered_type null_type_json = Inl AttributeError \<and>
   process_files [(''data/4.json'', Some null_type_json)] init_transformer = init_transformer"
  using uncategorized_only_leaves_match_tables
          [of mdm_json "''mdm''" "''data/2.json''" init_transformer AttributeError "[]"]
    uncategorized_only_leaves_match_tables
          [of null_type_json "''mdm''" "''data/4.json''" init_transformer AttributeError "[]"]
    four_files_types four_files_tiers mdm_balls mdm_run
  by (auto simp: init_transformer_def)

lemma fielder_names_eq:
  "fielder_names fs = map the (filter (\<lambda>v. v \<noteq> None \<and> v \<noteq> Some []) (map f_name fs))"
  by (induction fs) (auto split: option.splits)

lemma over_records_wickets:
  "map d_wicket (over_records mid i bt ov) = map (\<lambda>d. wicket_of (dl_wickets d)) (ov_deliveries ov)"
proof -
  have "map (d_wicket \<circ> (\<lambda>(k, d). make_delivery_record mid i bt (ov_over ov) (Suc k) d)) (enumerate n ds) =
        map (\<lambda>d. wicket_of (dl_wickets d)) ds" for n ds
    by (induction ds arbitrary: n) (simp_all add: make_delivery_record_def)
  then show ?thesis
    by (simp add: over_records_def)
qed

lemma inning_records_wickets:
  "map d_wicket (inning_records mid i inn) =
     map (\<lambda>d. wicket_of (dl_wickets d)) (concat (map ov_deliveries (in_overs inn)))"
  by (simp add: inning_records_def map_concat comp_def over_records_wickets)

lemma match_deliveries_wickets_aux:
  "map d_wicket (concat (map (\<lambda>(i, inn). inning_records mid (Suc i) inn) (enumerate n inns))) =
     map (\<lambda>d. wicket_of (dl_wickets d)) (concat (map ov_deliveries (concat (map in_overs inns))))"
  by (induction inns arbitrary: n) (simp_all add: inning_records_wickets)

lemma match_deliveries_wickets:
  "map d_wicket (match_deliveries mid (mj_innings mj)) =
     map (\<lambda>d. wicket_of (dl_wickets d)) (all_deliveries mj)"
  by (simp add: match_deliveries_def all_deliveries_def match_deliveries_wickets_aux)

lemma process_match_wickets:
  "process_match mj fp st = Inr st' \<Longrightarrow>
   map d_wicket (deliveries st') =
     map d_wicket (deliveries st) @ map (\<lambda>d. wicket_of (dl_wickets d)) (all_deliveries mj)"
  by (cases "lowered_type mj")
    (auto simp: process_match_raises process_match_returns bucket_deliveries match_deliveries_wickets)

lemma process_files_wickets:
  "map d_wicket (deliveries (process_files files st)) =
     map d_wicket (deliveries st) @ map (\<lambda>d. wicket_of (dl_wickets d)) (run_deliveries files)"
proof (induction files st rule: process_files.induct)
  case (1 st)
  then show ?case by simp
next
  case (2 file_path files st)
  then show ?case by simp
next
  case (3 file_path mj files st)
  show ?case
  proof (cases "lowered_type mj")
    case (Inl e)
    then have "process_match mj file_path st = Inl e"
      by (rule process_match_raises)
    with Inl 3(1) show ?thesis by simp
  next
    case (Inr mt)
    from process_match_returns [OF Inr]
    obtain st' where st': "process_match mj file_path st = Inr st'"
      by blast
    from process_match_wickets [OF st'] 3(2) [OF st'] Inr st'
    show ?thesis by simp
  qed
qed

text \<open>
  C3. The wicket fields of the rows the Flattener appends to the deliveries table
  are, ball by ball in source order, those of the ball's \<^verbatim>\<open>wickets\<close> list, in one
  call and over a whole run. For a non-empty list they are the kind and the
  dismissed player of the last entry, and that entry's fielder names in order,
  an entry whose name is absent (or the empty string, which the source's truth
  test rejects as well) left out, and no names when the entry records no
  fielders. Entries before the last have no effect, and a ball without wickets
  has no wicket fields.
\<close>

theorem wicket_last_entry:
  "(\<forall>st'. process_match mj fp st = Inr st' \<longrightarrow>
      map d_wicket (deliveries st') =
        map d_wicket (deliveries st) @ map (\<lambda>d. wicket_of (dl_wickets d)) (all_deliveries mj)) \<and>
   map d_wicket (deliveries (process_files files init_transformer)) =
     map (\<lambda>d. wicket_of (dl_wickets d)) (run_deliveries files) \<and>
   map d_wicket (over_records mid i bt ov) =
     map (\<lambda>d. wicket_of (dl_wickets d)) (ov_deliveries ov) \<and>
   d_wicket (make_delivery_record mid i bt over_num k d) = wicket_of (dl_wickets d) \<and>
   wicket_of [] = None \<and>
   (wickets \<noteq> [] \<longrightarrow>
      wicket_of wickets =
        Some \<lparr> wicket_kind = w_kind (last wickets),
               wicket_player_out = w_player_out (last wickets),
               wicket_fielders =
                 map the (filter (\<lambda>v. v \<noteq> None \<and> v \<noteq> Some [])
                                 (map f_name (w_fielders (last wickets)))) \<rparr>) \<and>
   (w_fielders (last wickets) = [] \<longrightarrow> wickets \<noteq> [] \<longrightarrow>
      map_option wicket_fielders (wicket_of wickets) = Some []) \<and>
   wicket_of (earlier @ [w]) = wicket_of [w]"
proof -
  have "map d_wicket (deliveries (process_files files init_transformer)) =
     map (\<lambda>d. wicket_of (dl_wickets d)) (run_deliveries files)"
    using process_files_wickets [of files init_transformer]
    by (simp add: init_transformer_def)
  then show ?thesis
    by (simp add: process_match_wickets over_records_wickets make_delivery_record_def
        wicket_of_def Let_def fielder_names_eq)
qed

text \<open>
  The run over the four files: three balls reach the deliveries table; the one
  with two dismissals carries the run out, the last, without its unnamed
  fielder.
\<close>

lemma four_files_wickets:
  "map (\<lambda>d. wicket_of (dl_wickets d)) (run_deliveries four_files) =
     [None,
      Some \<lparr> wicket_kind = Some ''run out'', wicket_player_out = Some ''C'',
             wicket_fielders = [''G'', ''H''] \<rparr>,
      None]"
  by code_simp

theorem wicket_last_entry_witness:
  "two_wickets \<noteq> [] \<and>
   wicket_of two_wickets =
     Some \<lparr> wicket_kind = Some ''run out'', wicket_player_out = Some ''C'',
            wicket_fielders = [''G'', ''H''] \<rparr> \<and>
   map d_wicket (deliveries (process_files four_files init_transformer)) =
     [None,
      Some \<lparr> wicket_kind = Some ''run out'', wicket_player_out = Some ''C'',
             wicket_fielders = [''G'', ''H''] \<rparr>,
      None]"
  using wicket_last_entry [where wickets = two_wickets and files = four_files]
    four_files_wickets
  by (simp add: two_wickets_def)

text \<open>
  C7. When the \<^verbatim>\<open>by\<close> mapping of the outcome is non-empty, \<^verbatim>\<open>outcome_type\<close> is its first
  key in insertion order and \<^verbatim>\<open>outcome_by\<close> the value stored at that key; when it is
  empty or absent both are null.
\<close>

theorem outcome_margin_first_key:
  "(o_by (i_outcome (mj_info mj)) = [] \<longrightarrow>
      outcome_type (make_match_data mj file_path mt) = None \<and>
      outcome_by (make_match_data mj file_path mt) = None) \<and>
   (\<forall>k v rest. o_by (i_outcome (mj_info mj)) = (k, v) # rest \<longrightarrow>
      outcome_type (make_match_data mj file_path mt) = Some k \<and>
      outcome_by (make_match_data mj file_path mt) = map_of ((k, v) # rest) k \<and>
      outcome_by (make_match_data mj file_path mt) = Some v)"
  by (simp add: make_match_data_def outcome_margin_def Let_def)

text \<open>A win by 10 runs, and a document without an outcome.\<close>

theorem outcome_margin_first_key_witness:
  "o_by (i_outcome (mj_info by_runs_json)) = [(''runs'', 10)] \<and>
   outcome_type (make_match_data by_runs_json ''data/5.json'' []) = Some ''runs'' \<and>
   outcome_by (make_match_data by_runs_json ''data/5.json'' []) = Some 10 \<and>
   o_by (i_outcome (mj_info test_odi_json)) = [] \<and>
   outcome_type (make_match_data test_odi_json ''data/1.json'' ''test odi'') = None \<and>
   outcome_by (make_match_data test_odi_json ''data/1.json'' ''test odi'') = None"
proof -
  have a: "o_by (i_outcome (mj_info by_runs_json)) = [(''runs'', 10)]"
    by (simp add: by_runs_json_def empty_info_def)
  have b: "o_by (i_outcome (mj_info test_odi_json)) = []"
    by (simp add: test_odi_json_def empty_info_def)
  show ?thesis
    using outcome_margin_first_key [of by_runs_json "''data/5.json''" "[]"]
      outcome_margin_first_key [of test_odi_json "''data/1.json''" "''test odi''"] a b
    by simp
qed

section \<open>The Sequencer: the numbers of a group\<close>

text \<open>
  What \<^verbatim>\<open>range(start, ...)\<close> leaves in a column: the numbers present stay, the
  missing ones are counted up from \<open>start\<close> in row order.
\<close>

lemma assign_range_length: "length (assign_range stored start vs) = length vs"
  by (induction stored start vs rule: assign_range.induct) simp_all

lemma assign_range_id: "None \<notin> set vs \<Longrightarrow> assign_range stored start vs = vs"
  by (induction stored start vs rule: assign_range.induct) simp_all

lemma assign_range_keeps:
  "i < length vs \<Longrightarrow> vs ! i = Some n \<Longrightarrow> assign_range stored start vs ! i = Some n"
proof (induction stored start vs arbitrary: i rule: assign_range.induct)
  case (1 stored start)
  then show ?case by simp
next
  case (2 stored start vs)
  then show ?case by (cases i) simp_all
next
  case (3 stored start n vs)
  then show ?case by (cases i) simp_all
qed

lemma assign_range_exact:
  "(\<And>k. k < length (filter (\<lambda>v. v = None) vs) \<Longrightarrow> stored (start + int k) = start + int k) \<Longrightarrow>
   assign_range stored start vs = assign_range (\<lambda>n. n) start vs"
proof (induction stored start vs rule: assign_range.induct)
  case (1 stored start)
  then show ?case by simp
next
  case (2 stored start vs)
  have "stored start = start"
    using 2(2) [of 0] by simp
  moreover have "assign_range stored (start + 1) vs = assign_range (\<lambda>n. n) (start + 1) vs"
  proof (rule 2(1))
    fix k
    assume "k < length (filter (\<lambda>v. v = None) vs)"
    then show "stored (start + 1 + int k) = start + 1 + int k"
      using 2(2) [of "Suc k"] by (simp add: add.assoc)
  qed
  ultimately show ?case by simp
next
  case (3 stored start n vs)
  then show ?case by simp
qed

lemma assign_range_new:
  "map snd (filter (\<lambda>(o', c). o' = None) (zip vs (assign_range (\<lambda>n. n) start vs))) =
     map (\<lambda>k. Some (start + int k)) [0..<length (filter (\<lambda>v. v = None) vs)]"
proof (induction "\<lambda>n::int. n" start vs rule: assign_range.induct)
  case (1 start)
  then show ?case by simp
next
  case (2 start vs)
  have "map (\<lambda>k. Some (start + int k)) [0..<Suc (length (filter (\<lambda>v. v = None) vs))] =
        Some start # map (\<lambda>k. Some (start + 1 + int k)) [0..<length (filter (\<lambda>v. v = None) vs)]"
    by (simp add: upt_conv_Cons map_Suc_upt [symmetric] del: upt_Suc)
  with 2 show ?case by simp
next
  case (3 start n vs)
  then show ?case by simp
qed

lemma assign_range_set:
  "set (assign_range (\<lambda>n. n) start vs) =
     Some ` (set (present vs) \<union> {start ..< start + int (length (filter (\<lambda>v. v = None) vs))})"
proof (induction "\<lambda>n::int. n" start vs rule: assign_range.induct)
  case (1 start)
  then show ?case by simp
next
  case (2 start vs)
  have "{start ..< start + int (Suc (length (filter (\<lambda>v. v = None) vs)))} =
        insert start {start + 1 ..< start + 1 + int (length (filter (\<lambda>v. v = None) vs))}"
    by auto
  with 2 show ?case by (simp add: image_Un)
next
  case (3 start n vs)
  then show ?case by simp
qed

lemma assign_range_distinct:
  "distinct (present vs) \<Longrightarrow> \<forall>m \<in> set (present vs). m < start \<Longrightarrow>
   distinct (assign_range (\<lambda>n. n) start vs)"
proof (induction "\<lambda>n::int. n" start vs rule: assign_range.induct)
  case (1 start)
  then show ?case by simp
next
  case (2 start vs)
  then have "distinct (assign_range (\<lambda>n. n) (start + 1) vs)"
    by force
  moreover have "Some start \<notin> set (assign_range (\<lambda>n. n) (start + 1) vs)"
    using 2(3) by (auto simp: assign_range_set)
  ultimately show ?case by simp
next
  case (3 start n vs)
  then have "distinct (assign_range (\<lambda>n. n) start vs)"
    by simp
  moreover have "Some n \<notin> set (assign_range (\<lambda>n. n) start vs)"
    using 3(2,3) by (auto simp: assign_range_set)
  ultimately show ?case by simp
qed

lemma f64_exact: "\<bar>n\<bar> \<le> 2 ^ 53 \<Longrightarrow> f64 n = n"
  by (simp add: f64_def)

lemma map_f64_exact:
  "list_all (\<lambda>m. \<bar>m\<bar> \<le> 2 ^ 53) (present vs) \<Longrightarrow> map (map_option f64) vs = vs"
  by (induction vs rule: present.induct) (simp_all add: f64_exact)

lemma present_missing_length:
  "length (present vs) + length (filter (\<lambda>v. v = None) vs) = length vs"
  by (induction vs rule: present.induct) simp_all

lemma start_eq:
  "(case present vs of [] \<Rightarrow> 1 | n # ns \<Rightarrow> fold max ns n + 1) =
   (if present vs = [] then 1 else Max (set (present vs)) + 1)"
  by (cases "present vs") (simp_all add: Max.set_eq_fold [symmetric])

lemma old_numbers_length: "length (old_numbers tn g) = length g"
  by (simp add: old_numbers_def)

lemma present_below_start: "m \<in> set (present (old_numbers tn g)) \<Longrightarrow> m < group_start tn g"
  by (auto simp: group_start_def less_Suc_eq_le intro: le_imp_less_Suc
      simp flip: zless_add1_eq)

lemma exact_present:
  assumes "exact_range tn g" and "m \<in> set (present (old_numbers tn g))"
  shows "- (2 ^ 53) \<le> m" and "m + int (length g) \<le> 2 ^ 53"
  using assms by (auto simp: exact_range_def list_all_iff)

lemma exact_present_abs:
  assumes "exact_range tn g"
  shows "list_all (\<lambda>m. \<bar>m\<bar> \<le> 2 ^ 53) (present (old_numbers tn g))"
  unfolding list_all_iff
proof
  fix m
  assume "m \<in> set (present (old_numbers tn g))"
  from exact_present [OF assms this] show "\<bar>m\<bar> \<le> 2 ^ 53"
    by linarith
qed

lemma exact_new:
  assumes e: "exact_range tn g" and k: "k < length (filter (\<lambda>v. v = None) (old_numbers tn g))"
  shows "\<bar>group_start tn g + int k\<bar> \<le> 2 ^ 53"
proof (cases "present (old_numbers tn g) = []")
  case True
  have "length (filter (\<lambda>v. v = None) (old_numbers tn g)) \<le> length g"
    using length_filter_le [of "\<lambda>v. v = None" "old_numbers tn g"] by (simp add: old_numbers_length)
  with k have "int k + 1 \<le> int (length g)" by linarith
  moreover from e have "int (length g) \<le> 2 ^ 53" by (simp add: exact_range_def)
  ultimately show ?thesis
    using True by (simp add: group_start_def)
next
  case False
  let ?M = "Max (set (present (old_numbers tn g)))"
  have M: "?M \<in> set (present (old_numbers tn g))"
    using False by (intro Max_in) simp_all
  have l: "length (present (old_numbers tn g)) +
           length (filter (\<lambda>v. v = None) (old_numbers tn g)) = length g"
    using present_missing_length [of "old_numbers tn g"] by (simp add: old_numbers_length)
  have p: "1 \<le> length (present (old_numbers tn g))"
    using False by (cases "present (old_numbers tn g)") simp_all
  from l p k have "int k + 1 < int (length g)"
    by linarith
  with exact_present [OF e M] show ?thesis
    using False by (simp add: group_start_def)
qed

lemma emn_zip:
  "length xs = length ys \<Longrightarrow>
   map event_match_number (map (\<lambda>(r, v). r\<lparr>event_match_number := number_cell v\<rparr>) (zip xs ys)) =
   map number_cell ys"
  by (induction xs ys rule: list_induct2) simp_all

lemma rows_zip:
  "length xs = length ys \<Longrightarrow>
   map (\<lambda>r. r\<lparr>event_match_number := Null\<rparr>)
     (map (\<lambda>(r, v). r\<lparr>event_match_number := number_cell v\<rparr>) (zip xs ys)) =
   map (\<lambda>r. r\<lparr>event_match_number := Null\<rparr>) xs"
  by (induction xs ys rule: list_induct2) simp_all

lemma fill_group_exact:
  assumes "exact_range tn g"
  shows "fst (fill_group tn dt g) =
     map (\<lambda>(r, v). r\<lparr>event_match_number := number_cell v\<rparr>)
       (zip (sort_key match_id g) (assign_range (\<lambda>n. n) (group_start tn g) (old_numbers tn g)))"
proof -
  let ?old = "old_numbers tn g"
  have col: "map (map_option f64) ?old = ?old"
    by (rule map_f64_exact) (rule exact_present_abs [OF assms])
  have new: "assign_range f64 (group_start tn g) ?old = assign_range (\<lambda>n. n) (group_start tn g) ?old"
    by (rule assign_range_exact) (rule f64_exact, rule exact_new [OF assms])
  have idc: "assign_range (\<lambda>n. n) (group_start tn g) ?old = ?old" if "None \<notin> set ?old"
    using that by (rule assign_range_id)
  have s: "(case present ?old of [] \<Rightarrow> 1 | n # ns \<Rightarrow> fold max ns n + 1) = group_start tn g"
    by (simp add: start_eq group_start_def)
  show ?thesis
    unfolding fill_group_def Let_def old_numbers_def [symmetric]
    by (simp add: col s new idc)
qed

section \<open>The Sequencer: the rows of the table it returns\<close>

text \<open>
  The rows of a group of the returned table are those \<^verbatim>\<open>fill_group\<close> returned for
  the group, whichever order \<^verbatim>\<open>apply\<close> gives the table; the table holds the rows
  that have both a season and an event name, and no others.
\<close>

lemma fill_group_rows:
  "map (\<lambda>r. r\<lparr>event_match_number := Null\<rparr>) (fst (fill_group tn dt g)) =
   map (\<lambda>r. r\<lparr>event_match_number := Null\<rparr>) (sort_key match_id g)"
  unfolding fill_group_def Let_def fst_conv
  by (rule rows_zip) (simp add: assign_range_length)

lemma group_key_number: "group_key (r\<lparr>event_match_number := c\<rparr>) = group_key r"
  by (simp add: group_key_def split: option.splits)

lemma as_float_blank: "(as_float r)\<lparr>event_match_number := Null\<rparr> = r\<lparr>event_match_number := Null\<rparr>"
  by (simp add: as_float_def)

lemma filled_groups_rows:
  "map (\<lambda>r. r\<lparr>event_match_number := Null\<rparr>) (filled_groups tn df k) =
   map (\<lambda>r. r\<lparr>event_match_number := Null\<rparr>) (sort_key match_id (group_of df k))"
  by (simp add: filled_groups_def Let_def comp_def as_float_blank fill_group_rows)

lemma blank_keys:
  assumes "map (\<lambda>r. r\<lparr>event_match_number := Null\<rparr>) xs =
           map (\<lambda>r. r\<lparr>event_match_number := Null\<rparr>) ys"
  shows "map group_key xs = map group_key ys"
proof -
  have "map group_key zs = map group_key (map (\<lambda>r. r\<lparr>event_match_number := Null\<rparr>) zs)" for zs
    by (simp add: comp_def group_key_number)
  from this [of xs] this [of ys] assms show ?thesis by simp
qed

lemma filled_groups_keys:
  "map group_key (filled_groups tn df k) = replicate (length (group_of df k)) (Some k)"
proof -
  have "map group_key (filled_groups tn df k) = map group_key (sort_key match_id (group_of df k))"
    by (rule blank_keys) (rule filled_groups_rows)
  also have "\<dots> = map (\<lambda>r. Some k) (sort_key match_id (group_of df k))"
    by (rule map_cong) (simp_all add: group_of_def)
  also have "\<dots> = replicate (length (group_of df k)) (Some k)"
    by (simp add: map_replicate_const)
  finally show ?thesis .
qed

lemma group_of_Cons:
  "group_of (r # rs) k = (if group_key r = Some k then r # group_of rs k else group_of rs k)"
  by (simp add: group_of_def)

lemma reindex_group:
  "(\<And>k. map group_key (filled k) = replicate (length (group_of rs k)) (Some k)) \<Longrightarrow>
   group_of (reindex rs filled) k = filled k"
proof (induction rs arbitrary: filled)
  case Nil
  from Nil [of k] show ?case by (simp add: group_of_def)
next
  case (Cons r rs)
  show ?case
  proof (cases "group_key r")
    case None
    have "group_of (reindex rs filled) k = filled k"
    proof (rule Cons.IH)
      fix k'
      from Cons.prems [of k'] None
      show "map group_key (filled k') = replicate (length (group_of rs k')) (Some k')"
        by (simp add: group_of_Cons)
    qed
    with None show ?thesis by simp
  next
    case (Some k0)
    from Cons.prems [of k0] Some
    have l: "map group_key (filled k0) = Some k0 # replicate (length (group_of rs k0)) (Some k0)"
      by (simp add: group_of_Cons)
    then obtain x xs where f: "filled k0 = x # xs" and x: "group_key x = Some k0"
      and xs: "map group_key xs = replicate (length (group_of rs k0)) (Some k0)"
      by (cases "filled k0") auto
    have ih: "group_of (reindex rs (filled(k0 := xs))) k = (filled(k0 := xs)) k"
    proof (rule Cons.IH)
      fix k'
      show "map group_key ((filled(k0 := xs)) k') = replicate (length (group_of rs k')) (Some k')"
      proof (cases "k' = k0")
        case True
        with xs show ?thesis by simp
      next
        case False
        with Cons.prems [of k'] Some show ?thesis by (simp add: group_of_Cons)
      qed
    qed
    show ?thesis
    proof (cases "k = k0")
      case True
      with ih f x Some show ?thesis by (simp add: group_of_Cons)
    next
      case False
      with ih f x Some show ?thesis by (simp add: group_of_Cons)
    qed
  qed
qed

lemma reindex_keys:
  "(\<And>k. map group_key (filled k) = replicate (length (group_of rs k)) (Some k)) \<Longrightarrow>
   map group_key (reindex rs filled) = filter (\<lambda>v. v \<noteq> None) (map group_key rs)"
proof (induction rs arbitrary: filled)
  case Nil
  then show ?case by simp
next
  case (Cons r rs)
  show ?case
  proof (cases "group_key r")
    case None
    have "map group_key (reindex rs filled) = filter (\<lambda>v. v \<noteq> None) (map group_key rs)"
    proof (rule Cons.IH)
      fix k'
      from Cons.prems [of k'] None
      show "map group_key (filled k') = replicate (length (group_of rs k')) (Some k')"
        by (simp add: group_of_Cons)
    qed
    with None show ?thesis by simp
  next
    case (Some k0)
    from Cons.prems [of k0] Some
    have l: "map group_key (filled k0) = Some k0 # replicate (length (group_of rs k0)) (Some k0)"
      by (simp add: group_of_Cons)
    then obtain x xs where f: "filled k0 = x # xs" and x: "group_key x = Some k0"
      and xs: "map group_key xs = replicate (length (group_of rs k0)) (Some k0)"
      by (cases "filled k0") auto
    have "map group_key (reindex rs (filled(k0 := xs))) = filter (\<lambda>v. v \<noteq> None) (map group_key rs)"
    proof (rule Cons.IH)
      fix k'
      show "map group_key ((filled(k0 := xs)) k') = replicate (length (group_of rs k')) (Some k')"
      proof (cases "k' = k0")
        case True
        with xs show ?thesis by simp
      next
        case False
        with Cons.prems [of k'] Some show ?thesis by (simp add: group_of_Cons)
      qed
    qed
    with f x Some show ?thesis by simp
  qed
qed

lemma group_of_concat:
  "group_of (concat xss) k = concat (map (\<lambda>xs. group_of xs k) xss)"
  by (induction xss) (simp_all add: group_of_def)

lemma group_of_same:
  "map group_key xs = replicate n (Some k') \<Longrightarrow> group_of xs k = (if k' = k then xs else [])"
proof (induction xs arbitrary: n)
  case Nil
  then show ?case by (simp add: group_of_def)
next
  case (Cons x xs)
  then obtain m where "n = Suc m" by (cases n) auto
  with Cons show ?case by (auto simp: group_of_Cons)
qed

lemma concat_pick:
  "distinct ks \<Longrightarrow>
   concat (map (\<lambda>k'. if k' = k then f k' else []) ks) = (if k \<in> set ks then f k else [])"
  by (induction ks) auto

lemma map_filter_set: "set (List.map_filter f xs) = {y. \<exists>x \<in> set xs. f x = Some y}"
  by (induction xs) (auto split: option.splits)

lemma group_keys_set: "set (group_keys df) = {k. \<exists>r \<in> set df. group_key r = Some k}"
  by (simp add: group_keys_def map_filter_set)

lemma group_keys_distinct: "distinct (group_keys df)"
  by (simp add: group_keys_def)

lemma group_of_empty: "k \<notin> set (group_keys df) \<Longrightarrow> group_of df k = []"
  by (auto simp: group_keys_set group_of_def filter_empty_conv)

lemma concat_group:
  "group_of (concat (map (filled_groups tn df) (group_keys df))) k = filled_groups tn df k"
proof -
  have "group_of (concat (map (filled_groups tn df) (group_keys df))) k =
        concat (map (\<lambda>k'. group_of (filled_groups tn df k') k) (group_keys df))"
    by (simp add: group_of_concat comp_def)
  also have "\<dots> = concat (map (\<lambda>k'. if k' = k then filled_groups tn df k' else []) (group_keys df))"
    by (simp add: group_of_same [OF filled_groups_keys])
  also have "\<dots> = (if k \<in> set (group_keys df) then filled_groups tn df k else [])"
    by (rule concat_pick) (rule group_keys_distinct)
  also have "\<dots> = filled_groups tn df k"
  proof (cases "k \<in> set (group_keys df)")
    case True
    then show ?thesis by simp
  next
    case False
    then have "group_of df k = []" by (rule group_of_empty)
    with filled_groups_keys [of tn df k] have "filled_groups tn df k = []" by simp
    with False show ?thesis by simp
  qed
  finally show ?thesis .
qed

lemma table_group:
  assumes "fill_event_match_number tn df = Inr out"
  shows "group_of out k = filled_groups tn df k"
proof -
  from assms have "out = reindex df (filled_groups tn df) \<or>
      out = concat (map (filled_groups tn df) (group_keys df))"
    by (auto simp: fill_event_match_number_def Let_def split: if_splits)
  then show ?thesis
  proof
    assume "out = reindex df (filled_groups tn df)"
    then show ?thesis
      by (simp add: reindex_group [OF filled_groups_keys])
  next
    assume "out = concat (map (filled_groups tn df) (group_keys df))"
    then show ?thesis
      by (simp add: concat_group)
  qed
qed

lemma count_keys:
  "distinct ks \<Longrightarrow>
   (\<Sum>k\<leftarrow>ks. length (group_of df k)) =
     length (filter (\<lambda>r. group_key r \<in> Some ` set ks) df)"
proof (induction ks)
  case Nil
  then show ?case by simp
next
  case (Cons k ks)
  have "length (filter (\<lambda>r. group_key r \<in> Some ` set (k # ks)) df) =
        length (group_of df k) +
        length (filter (\<lambda>r. group_key r \<in> Some ` set ks) df)"
    using Cons.prems by (induction df) (auto simp: group_of_def)
  with Cons show ?case by simp
qed

lemma keyed_iff: "group_key r \<noteq> None \<longleftrightarrow> season r \<noteq> None \<and> event_name r \<noteq> None"
  by (simp add: group_key_def split: option.splits)

lemma keyed_in_keys:
  "r \<in> set df \<Longrightarrow> group_key r \<in> Some ` set (group_keys df) \<longleftrightarrow> group_key r \<noteq> None"
  by (force simp: group_keys_set)

lemma keyed_count:
  "(\<Sum>k\<leftarrow>group_keys df. length (group_of df k)) = length (filter (\<lambda>r. group_key r \<noteq> None) df)"
proof -
  have "(\<Sum>k\<leftarrow>group_keys df. length (group_of df k)) =
        length (filter (\<lambda>r. group_key r \<in> Some ` set (group_keys df)) df)"
    by (rule count_keys) (rule group_keys_distinct)
  also have "filter (\<lambda>r. group_key r \<in> Some ` set (group_keys df)) df =
             filter (\<lambda>r. group_key r \<noteq> None) df"
    by (rule filter_cong) (simp_all add: keyed_in_keys)
  finally show ?thesis .
qed

lemma table_keys:
  assumes "fill_event_match_number tn df = Inr out"
  shows "None \<notin> set (map group_key out) \<and>
         length out = length (filter (\<lambda>r. group_key r \<noteq> None) df)"
proof -
  from assms have "out = reindex df (filled_groups tn df) \<or>
      out = concat (map (filled_groups tn df) (group_keys df))"
    by (auto simp: fill_event_match_number_def Let_def split: if_splits)
  then show ?thesis
  proof
    assume o: "out = reindex df (filled_groups tn df)"
    have k: "map group_key out = filter (\<lambda>v. v \<noteq> None) (map group_key df)"
      unfolding o by (rule reindex_keys) (rule filled_groups_keys)
    have "length out = length (map group_key out)"
      by simp
    also have "\<dots> = length (filter (\<lambda>v. v \<noteq> None) (map group_key df))"
      by (simp only: k)
    also have "\<dots> = length (filter (\<lambda>r. group_key r \<noteq> None) df)"
      by (simp add: filter_map comp_def del: not_None_eq)
    finally have "length out = length (filter (\<lambda>r. group_key r \<noteq> None) df)" .
    moreover have "None \<notin> set (map group_key out)"
      unfolding k by simp
    ultimately show ?thesis by simp
  next
    assume o: "out = concat (map (filled_groups tn df) (group_keys df))"
    have k: "map group_key out =
        concat (map (\<lambda>k. replicate (length (group_of df k)) (Some k)) (group_keys df))"
      unfolding o by (simp add: map_concat comp_def filled_groups_keys)
    have "length (map group_key out) = (\<Sum>k\<leftarrow>group_keys df. length (group_of df k))"
      unfolding k by (simp add: length_concat comp_def)
    then have "length out = length (filter (\<lambda>r. group_key r \<noteq> None) df)"
      by (simp add: keyed_count)
    moreover have "None \<notin> set (map group_key out)"
      unfolding k by auto
    ultimately show ?thesis by simp
  qed
qed

lemma sequencer_drops_unkeyed:
  assumes "fill_event_match_number tn df = Inr out" and "r \<in> set out"
  shows "season r \<noteq> None \<and> event_name r \<noteq> None"
proof -
  from table_keys [OF assms(1)] have "None \<notin> set (map group_key out)" ..
  moreover from assms(2) have "group_key r \<in> set (map group_key out)" by simp
  ultimately have "group_key r \<noteq> None" by metis
  then show ?thesis using keyed_iff [of r] by blast
qed

lemma sequencer_length:
  assumes "fill_event_match_number tn df = Inr out"
  shows "length out = length (filter (\<lambda>r. season r \<noteq> None \<and> event_name r \<noteq> None) df)"
  using table_keys [OF assms] by (simp add: keyed_iff del: not_None_eq)

section \<open>The Sequencer: the numbers of a group of the returned table\<close>

lemma present_set: "set (present vs) = {n. Some n \<in> set vs}"
  by (induction vs rule: present.induct) auto

lemma as_float_zip:
  "map as_float (map (\<lambda>(r, v). r\<lparr>event_match_number := number_cell v\<rparr>) (zip xs vs)) =
   map (\<lambda>(r, v). r\<lparr>event_match_number := number_cell v\<rparr>) (zip xs (map (map_option f64) vs))"
proof (induction xs arbitrary: vs)
  case Nil
  then show ?case by simp
next
  case (Cons x xs)
  then show ?case
    by (cases vs) (auto simp: as_float_def number_cell_def split: option.splits)
qed

lemma assigned_exact:
  assumes "exact_range tn g"
  shows "list_all (\<lambda>m. \<bar>m\<bar> \<le> 2 ^ 53)
           (present (assign_range (\<lambda>n. n) (group_start tn g) (old_numbers tn g)))"
  unfolding list_all_iff
proof
  fix m
  assume "m \<in> set (present (assign_range (\<lambda>n. n) (group_start tn g) (old_numbers tn g)))"
  then have "m \<in> set (present (old_numbers tn g)) \<or>
      (group_start tn g \<le> m \<and>
       m < group_start tn g + int (length (filter (\<lambda>v. v = None) (old_numbers tn g))))"
    by (auto simp: present_set assign_range_set)
  then show "\<bar>m\<bar> \<le> 2 ^ 53"
  proof
    assume "m \<in> set (present (old_numbers tn g))"
    from exact_present [OF assms this] show ?thesis by linarith
  next
    assume a: "group_start tn g \<le> m \<and>
       m < group_start tn g + int (length (filter (\<lambda>v. v = None) (old_numbers tn g)))"
    define j where "j = nat (m - group_start tn g)"
    from a have j: "j < length (filter (\<lambda>v. v = None) (old_numbers tn g))"
      by (simp add: j_def nat_less_iff)
    from a have m: "m = group_start tn g + int j"
      by (simp add: j_def)
    from exact_new [OF assms j] m show ?thesis by simp
  qed
qed

lemma filled_groups_exact:
  assumes "exact_range tn (group_of df k)"
  shows "filled_groups tn df k =
     map (\<lambda>(r, v). r\<lparr>event_match_number := number_cell v\<rparr>)
       (zip (sort_key match_id (group_of df k))
          (assign_range (\<lambda>n. n) (group_start tn (group_of df k)) (old_numbers tn (group_of df k))))"
proof -
  have "map (map_option f64)
          (assign_range (\<lambda>n. n) (group_start tn (group_of df k)) (old_numbers tn (group_of df k))) =
        assign_range (\<lambda>n. n) (group_start tn (group_of df k)) (old_numbers tn (group_of df k))"
    by (rule map_f64_exact) (rule assigned_exact [OF assms])
  then have af: "map as_float
      (map (\<lambda>(r, v). r\<lparr>event_match_number := number_cell v\<rparr>)
        (zip (sort_key match_id (group_of df k))
          (assign_range (\<lambda>n. n) (group_start tn (group_of df k)) (old_numbers tn (group_of df k))))) =
      map (\<lambda>(r, v). r\<lparr>event_match_number := number_cell v\<rparr>)
        (zip (sort_key match_id (group_of df k))
          (assign_range (\<lambda>n. n) (group_start tn (group_of df k)) (old_numbers tn (group_of df k))))"
    by (simp only: as_float_zip)
  show ?thesis
    by (simp only: filled_groups_def Let_def fill_group_exact [OF assms] af if_cancel)
qed

lemma final_numbers_eq:
  assumes "fill_event_match_number tn df = Inr out" and "exact_range tn (group_of df k)"
  shows "final_numbers out k =
     map number_cell
       (assign_range (\<lambda>n. n) (group_start tn (group_of df k)) (old_numbers tn (group_of df k)))"
proof -
  have "length (sort_key match_id (group_of df k)) =
        length (assign_range (\<lambda>n. n) (group_start tn (group_of df k)) (old_numbers tn (group_of df k)))"
    by (simp add: assign_range_length old_numbers_length)
  then show ?thesis
    by (simp only: final_numbers_def table_group [OF assms(1)] filled_groups_exact [OF assms(2)]
        emn_zip)
qed

lemma group_rows:
  assumes "fill_event_match_number tn df = Inr out"
  shows "map (\<lambda>r. r\<lparr>event_match_number := Null\<rparr>) (group_of out k) =
         map (\<lambda>r. r\<lparr>event_match_number := Null\<rparr>) (sort_key match_id (group_of df k))"
  by (simp only: table_group [OF assms] filled_groups_rows)

lemma group_sorted:
  assumes "fill_event_match_number tn df = Inr out"
  shows "sorted (map match_id (group_of out k))"
proof -
  have "map match_id (group_of out k) =
        map match_id (map (\<lambda>r. r\<lparr>event_match_number := Null\<rparr>) (group_of out k))"
    by (simp add: comp_def)
  also have "\<dots> = map match_id (map (\<lambda>r. r\<lparr>event_match_number := Null\<rparr>)
                       (sort_key match_id (group_of df k)))"
    by (simp only: group_rows [OF assms])
  also have "\<dots> = map match_id (sort_key match_id (group_of df k))"
    by (simp add: comp_def)
  finally show ?thesis by simp
qed

lemma final_kept:
  assumes "fill_event_match_number tn df = Inr out" and "exact_range tn (group_of df k)"
    and "i < length (old_numbers tn (group_of df k))" and "old_numbers tn (group_of df k) ! i = Some n"
  shows "final_numbers out k ! i = Num n"
  using assms(3,4)
  by (simp add: final_numbers_eq [OF assms(1,2)] assign_range_length assign_range_keeps number_cell_def)

lemma final_new:
  assumes "fill_event_match_number tn df = Inr out" and "exact_range tn (group_of df k)"
  shows "map snd (filter (\<lambda>(o', c). o' = None) (zip (old_numbers tn (group_of df k)) (final_numbers out k))) =
   map (\<lambda>j. Num (group_start tn (group_of df k) + int j))
     [0..<length (filter (\<lambda>v. v = None) (old_numbers tn (group_of df k)))]"
proof -
  let ?old = "old_numbers tn (group_of df k)"
  let ?new = "assign_range (\<lambda>n. n) (group_start tn (group_of df k)) ?old"
  have "zip ?old (map number_cell ?new) = map (\<lambda>(x, y). (x, number_cell y)) (zip ?old ?new)"
    by (simp add: zip_map2)
  then have "map snd (filter (\<lambda>(o', c). o' = None) (zip ?old (map number_cell ?new))) =
        map number_cell (map snd (filter (\<lambda>(o', c). o' = None) (zip ?old ?new)))"
    by (simp add: filter_map comp_def split_def)
  also have "\<dots> = map number_cell (map (\<lambda>j. Some (group_start tn (group_of df k) + int j))
                      [0..<length (filter (\<lambda>v. v = None) ?old)])"
    by (simp only: assign_range_new)
  finally show ?thesis
    by (simp add: final_numbers_eq [OF assms] number_cell_def comp_def)
qed

lemma inj_number_cell: "inj_on number_cell A"
  by (auto simp: inj_on_def number_cell_def split: option.splits)

lemma final_distinct:
  assumes "fill_event_match_number tn df = Inr out" and "exact_range tn (group_of df k)"
    and "distinct (present (old_numbers tn (group_of df k)))"
  shows "distinct (final_numbers out k)"
proof -
  have "distinct (assign_range (\<lambda>n. n) (group_start tn (group_of df k)) (old_numbers tn (group_of df k)))"
    using assms(3) present_below_start by (intro assign_range_distinct) auto
  then show ?thesis
    by (simp add: final_numbers_eq [OF assms(1,2)] distinct_map inj_number_cell)
qed

lemma final_positive:
  assumes "fill_event_match_number tn df = Inr out" and "exact_range tn (group_of df k)"
    and "\<forall>m \<in> set (present (old_numbers tn (group_of df k))). 1 \<le> m"
    and "c \<in> set (final_numbers out k)"
  shows "\<exists>n\<ge>1. c = Num n"
proof -
  let ?g = "group_of df k"
  have s: "1 \<le> group_start tn ?g"
  proof (cases "present (old_numbers tn ?g) = []")
    case True
    then show ?thesis by (simp add: group_start_def)
  next
    case False
    then obtain m where m: "m \<in> set (present (old_numbers tn ?g))"
      by (cases "present (old_numbers tn ?g)") auto
    with assms(3) present_below_start [OF m] show ?thesis by force
  qed
  from assms(4) obtain v where v: "v \<in> set (assign_range (\<lambda>n. n) (group_start tn ?g) (old_numbers tn ?g))"
    and c: "c = number_cell v"
    by (auto simp: final_numbers_eq [OF assms(1,2)])
  from v obtain n where n: "v = Some n"
    and nn: "n \<in> set (present (old_numbers tn ?g)) \<or> group_start tn ?g \<le> n"
    by (auto simp: assign_range_set)
  from nn assms(3) s have "1 \<le> n" by auto
  with c n show ?thesis by (simp add: number_cell_def)
qed

lemma group_start_cases:
  "(present (old_numbers tn g) = [] \<longrightarrow> group_start tn g = 1) \<and>
   (present (old_numbers tn g) \<noteq> [] \<longrightarrow> group_start tn g = Max (set (present (old_numbers tn g))) + 1)"
  by (simp add: group_start_def)

text \<open>When the table has a row, \<^verbatim>\<open>fill_event_match_number\<close> returns a table.\<close>

lemma sequenced_returns: "df \<noteq> [] \<Longrightarrow> fill_event_match_number tn df = Inr (sequenced tn df)"
  by (simp add: sequenced_def fill_event_match_number_def Let_def)

lemma scenario_facts:
  "exact_range (\<lambda>_. None) (group_of scenario_group cup)"
  "old_numbers (\<lambda>_. None) (group_of scenario_group cup) = [None, Some 2, None]"
  "map match_id (group_of (sequenced (\<lambda>_. None) scenario_group) cup) = [''1'', ''2'', ''3'']"
  "final_numbers (sequenced (\<lambda>_. None) scenario_group) cup = [Num 3, Num 2, Num 4]"
  by code_simp+

text \<open>
  C4 as stated fails, in three ways. The Sequencer does not look at the numbers
  already present: in a group numbered 2, 2, null the final numbers 2, 2, 3 are
  not unique, and in a group numbered 0, null the final numbers 0, 1 are not all
  at least 1. And a number handed out is stored in a column of floats: in a
  group numbered \<open>2 ^ 53\<close>, null the new number \<open>2 ^ 53 + 1\<close> is stored as
  \<open>2 ^ 53\<close>, which is neither greater than the number present nor different
  from it.
\<close>

theorem sequencer_numbers_counterexample:
  "old_numbers (\<lambda>_. None) (group_of duplicate_group cup) = [Some 2, Some 2, None] \<and>
   fill_event_match_number (\<lambda>_. None) duplicate_group = Inr (sequenced (\<lambda>_. None) duplicate_group) \<and>
   final_numbers (sequenced (\<lambda>_. None) duplicate_group) cup = [Num 2, Num 2, Num 3] \<and>
   old_numbers (\<lambda>_. None) (group_of zero_group cup) = [Some 0, None] \<and>
   fill_event_match_number (\<lambda>_. None) zero_group = Inr (sequenced (\<lambda>_. None) zero_group) \<and>
   final_numbers (sequenced (\<lambda>_. None) zero_group) cup = [Num 0, Num 1] \<and>
   old_numbers (\<lambda>_. None) (group_of big_group cup) = [Some (2 ^ 53), None] \<and>
   fill_event_match_number (\<lambda>_. None) big_group = Inr (sequenced (\<lambda>_. None) big_group) \<and>
   final_numbers (sequenced (\<lambda>_. None) big_group) cup = [Num (2 ^ 53), Num (2 ^ 53)]"
  by code_simp

text \<open>
  C4, amended. Let a table be sequenced, and take a (season, event name) group of
  it whose numbers, once normalised, lie between \<open>- 2 ^ 53\<close> and \<open>2 ^ 53\<close> less the
  number of rows of the group, the range in which a column of floats holds
  every number present and every number handed out exactly. The rows of the
  group in the returned table are the rows of the group in ascending
  \<^verbatim>\<open>match_id\<close> order, changed in the match number only. A row that had a number
  keeps it. The rows that had none (null, the empty string, or a string that
  \<^verbatim>\<open>to_numeric\<close> does not read as a number) receive, in that order, the consecutive
  integers from the start of the group: 1 when the group has no number, one
  above the greatest number present otherwise, so that every number handed out
  is greater than every number present. The final numbers are pairwise
  different provided the numbers present were, and are integers from 1 up
  provided the numbers present were.
\<close>

theorem sequencer_group:
  assumes "fill_event_match_number tn df = Inr out" and "exact_range tn (group_of df k)"
  shows "map (\<lambda>r. r\<lparr>event_match_number := Null\<rparr>) (group_of out k) =
           map (\<lambda>r. r\<lparr>event_match_number := Null\<rparr>) (sort_key match_id (group_of df k)) \<and>
         sorted (map match_id (group_of out k)) \<and>
         (\<forall>i<length (old_numbers tn (group_of df k)). \<forall>n.
            old_numbers tn (group_of df k) ! i = Some n \<longrightarrow> final_numbers out k ! i = Num n) \<and>
         map snd (filter (\<lambda>(o', c). o' = None)
                    (zip (old_numbers tn (group_of df k)) (final_numbers out k))) =
           map (\<lambda>j. Num (group_start tn (group_of df k) + int j))
             [0..<length (filter (\<lambda>v. v = None) (old_numbers tn (group_of df k)))] \<and>
         (present (old_numbers tn (group_of df k)) = [] \<longrightarrow> group_start tn (group_of df k) = 1) \<and>
         (present (old_numbers tn (group_of df k)) \<noteq> [] \<longrightarrow>
            group_start tn (group_of df k) =
              Max (set (present (old_numbers tn (group_of df k)))) + 1) \<and>
         (\<forall>m \<in> set (present (old_numbers tn (group_of df k))). m < group_start tn (group_of df k)) \<and>
         (distinct (present (old_numbers tn (group_of df k))) \<longrightarrow> distinct (final_numbers out k)) \<and>
         ((\<forall>m \<in> set (present (old_numbers tn (group_of df k))). 1 \<le> m) \<longrightarrow>
            (\<forall>c \<in> set (final_numbers out k). \<exists>n\<ge>1. c = Num n))"
  using group_rows [OF assms(1), of k] group_sorted [OF assms(1), of k] final_new [OF assms]
    group_start_cases [of tn "group_of df k"] final_distinct [OF assms] final_positive [OF assms]
  by (auto simp: final_kept [OF assms] present_below_start simp del: upt_Suc)

text \<open>
  The scenario of the specification: a group numbered null, 2, null in \<^verbatim>\<open>match_id\<close>
  order ends with the numbers 3, 2, 4.
\<close>

theorem sequencer_group_witness:
  "fill_event_match_number (\<lambda>_. None) scenario_group = Inr (sequenced (\<lambda>_. None) scenario_group) \<and>
   exact_range (\<lambda>_. None) (group_of scenario_group cup) \<and>
   old_numbers (\<lambda>_. None) (group_of scenario_group cup) = [None, Some 2, None] \<and>
   group_start (\<lambda>_. None) (group_of scenario_group cup) = 3 \<and>
   map match_id (group_of (sequenced (\<lambda>_. None) scenario_group) cup) = [''1'', ''2'', ''3''] \<and>
   final_numbers (sequenced (\<lambda>_. None) scenario_group) cup = [Num 3, Num 2, Num 4] \<and>
   distinct (final_numbers (sequenced (\<lambda>_. None) scenario_group) cup)"
proof -
  have r: "fill_event_match_number (\<lambda>_. None) scenario_group = Inr (sequenced (\<lambda>_. None) scenario_group)"
    by (rule sequenced_returns) (simp add: scenario_group_def)
  show ?thesis
    using sequencer_group [OF r scenario_facts(1)] r scenario_facts
    by simp
qed

section \<open>The Sequencer: the rows it drops\<close>

text \<open>
  C8 says that no record is deleted once the Flattener has put it in a table.
  In the run over three files of one season, a test match without an event and
  an ODI and a T20 match of the event Cup, the test match is in the Flattener's
  test list and still has no event name after the Imputer; the test table that
  \<^verbatim>\<open>get_dataframes\<close> returns is empty.
\<close>

theorem null_event_row_dropped:
  "map match_id (tests (process_files lost_files init_transformer)) = [''10''] \<and>
   map event_name (impute_all (make_frames (process_files lost_files init_transformer)) DfTests) = [None] \<and>
   output_ids (get_dataframes (\<lambda>_. None) (process_files lost_files init_transformer)) =
     Inr ([], [''11''], [''12''])"
  by code_simp

text \<open>With no T20 match among the files there are no final tables at all.\<close>

lemma empty_tier_raises:
  "map match_id (tests (process_files (take 2 lost_files) init_transformer)) = [''10''] \<and>
   get_dataframes (\<lambda>_. None) (process_files (take 2 lost_files) init_transformer) = Inl KeyError"
  by code_simp

section \<open>The Imputer: what a call leaves in the frame\<close>

text \<open>
  With the universe in a frame of its own, a call of the Imputer leaves in each
  row of the tier's frame what the three blocks write for it, and the rows of
  the universe are the same for every row of the loop.
\<close>

lemma filter_find_case:
  "(case filter P xs of [] \<Rightarrow> a | u # _ \<Rightarrow> f u) = (case find P xs of None \<Rightarrow> a | Some u \<Rightarrow> f u)"
  by (induction xs) auto

lemma at_set_other: "f \<noteq> df \<Longrightarrow> at_set df idx upd s f = s f"
  by (simp add: at_set_def)

lemma at_set_row: "idx < length (s df) \<Longrightarrow> at_set df idx upd s df ! idx = upd (s df ! idx)"
  by (simp add: at_set_def)

lemma at_set_length: "length (at_set df idx upd s f) = length (s f)"
  by (simp add: at_set_def)

lemma at_set_at_set:
  "at_set df idx f (at_set df idx g s) = at_set df idx (f \<circ> g) s"
  by (cases "idx < length (s df)") (simp_all add: at_set_def list_update_beyond)

lemma impute_city_eq:
  "df \<noteq> combined \<Longrightarrow>
   impute_city df combined idx row s =
     at_set df idx (\<lambda>r. r\<lparr>city := new_city (s combined) row (city r)\<rparr>) s"
  by (auto simp: impute_city_def new_city_def filter_find_case at_set_def
      split: option.splits)

lemma impute_outcome_eq:
  "impute_outcome df idx row s =
     at_set df idx (\<lambda>r. r\<lparr>outcome_result := new_outcome_result row (outcome_result r)\<rparr>) s"
  by (auto simp: impute_outcome_def new_outcome_result_def at_set_def)

lemma impute_event_eq:
  "df \<noteq> combined \<Longrightarrow>
   impute_event df combined idx row s =
     at_set df idx (\<lambda>r. r\<lparr>event_name := new_event_name (s combined) row (event_name r)\<rparr>) s"
  by (auto simp: impute_event_def new_event_name_def filter_find_case at_set_def
      split: option.splits)

lemma apply_rule_eq:
  "df \<noteq> combined \<Longrightarrow>
   apply_rule view df combined idx row rl s =
     at_set df idx (rule_update (s combined) (read_row view df idx row s) rl) s"
  by (cases rl)
    (simp_all add: apply_rule_def rule_update_def impute_city_eq impute_outcome_eq impute_event_eq)

lemma impute_row_in_eq:
  "df \<noteq> combined \<Longrightarrow> idx < length (s df) \<Longrightarrow>
   impute_row_in order view df combined idx row s =
     at_set df idx (rules_update view (s combined) row order) s"
proof (induction order arbitrary: s)
  case Nil
  then show ?case
    by (simp add: impute_row_in_def at_set_def)
next
  case (Cons rl order)
  let ?s1 = "apply_rule view df combined idx row rl s"
  have s1: "?s1 = at_set df idx (rule_update (s combined) (read_row view df idx row s) rl) s"
    using Cons.prems(1) by (rule apply_rule_eq)
  have len: "idx < length (?s1 df)"
    using Cons.prems(2) by (simp add: s1 at_set_length)
  have c: "?s1 combined = s combined"
    using Cons.prems(1) by (simp add: s1 at_set_other)
  have "impute_row_in (rl # order) view df combined idx row s =
        impute_row_in order view df combined idx row ?s1"
    by (simp add: impute_row_in_def)
  also have "\<dots> = at_set df idx (rules_update view (s combined) row order) ?s1"
    using Cons.IH [of ?s1] Cons.prems(1) len by (simp add: c)
  also have "\<dots> = at_set df idx (rules_update view (s combined) row (rl # order)) s"
    using Cons.prems(2)
    by (simp add: s1 at_set_at_set read_row_def) (simp add: at_set_def)
  finally show ?case .
qed

lemma impute_row_as_order:
  "impute_row view df combined idx row s =
   impute_row_in [CityRule, OutcomeRule, EventRule] view df combined idx row s"
  by (simp add: impute_row_def impute_row_in_def)

lemma impute_loop_eq:
  assumes "df \<noteq> combined" and "length (s df) = n + length rows"
    and "\<And>idx row s'. idx < length (s' df) \<Longrightarrow>
           body idx row s' = at_set df idx (g (s' combined) row) s'"
  shows "impute_loop body (enumerate n rows) s =
           s(df := take n (s df) @ map (\<lambda>(row, cur). g (s combined) row cur) (zip rows (drop n (s df))))"
  using assms(2)
proof (induction rows arbitrary: n s)
  case Nil
  then show ?case by simp
next
  case (Cons row rest)
  let ?v = "g (s combined) row (s df ! n)"
  let ?s1 = "at_set df n (g (s combined) row) s"
  from Cons.prems have n: "n < length (s df)" by simp
  have s1c: "?s1 combined = s combined"
    using assms(1) by (simp add: at_set_def)
  have s1d: "?s1 df = (s df)[n := ?v]" by (simp add: at_set_def)
  have len: "length (?s1 df) = Suc n + length rest"
    using Cons.prems by (simp add: s1d)
  have "impute_loop body (enumerate n (row # rest)) s =
        impute_loop body (enumerate (Suc n) rest) ?s1"
    using assms(3) [of n s row] n by simp
  also have "\<dots> = ?s1(df := take (Suc n) (?s1 df) @
      map (\<lambda>(row, cur). g (?s1 combined) row cur) (zip rest (drop (Suc n) (?s1 df))))"
    using Cons.IH [of ?s1 "Suc n"] len by blast
  also have "\<dots> = s(df := take n (s df) @
      map (\<lambda>(row, cur). g (s combined) row cur) (zip (row # rest) (drop n (s df))))"
  proof -
    have t: "take (Suc n) ((s df)[n := ?v]) = take n (s df) @ [?v]"
      using n by (simp add: take_Suc_conv_app_nth)
    have d: "drop n (s df) = (s df ! n) # drop (Suc n) (s df)"
      using n by (simp add: Cons_nth_drop_Suc)
    show ?thesis
      using assms(1) by (simp add: s1c s1d t d at_set_def)
  qed
  finally show ?case .
qed

lemma impute_match_fields_in_eq:
  assumes "df \<noteq> combined"
  shows "impute_match_fields_in order df combined s =
           s(df := map (\<lambda>r. rules_update (all_object (s df)) (s combined) r order r) (s df))"
proof -
  have "impute_loop (impute_row_in order (all_object (s df)) df combined) (enumerate 0 (s df)) s =
        s(df := take 0 (s df) @
          map (\<lambda>(row, cur). rules_update (all_object (s df)) (s combined) row order cur)
            (zip (s df) (drop 0 (s df))))"
    by (rule impute_loop_eq [OF assms]) (simp_all add: impute_row_in_eq [OF assms])
  then show ?thesis
    by (simp add: impute_match_fields_in_def zip_same_conv_map comp_def)
qed

lemma impute_match_fields_as_order:
  "impute_match_fields df combined s =
   impute_match_fields_in [CityRule, OutcomeRule, EventRule] df combined s"
proof -
  have "impute_row view df combined = impute_row_in [CityRule, OutcomeRule, EventRule] view df combined"
    for view
    by (intro ext) (simp add: impute_row_def impute_row_in_def)
  then show ?thesis
    by (simp add: impute_match_fields_def impute_match_fields_in_def)
qed

lemma impute_match_fields_eq:
  assumes "df \<noteq> combined"
  shows "impute_match_fields df combined s =
           s(df := map (imputed (all_object (s df)) (s combined)) (s df))"
proof -
  have "imputed view U = (\<lambda>r. rules_update view U r [CityRule, OutcomeRule, EventRule] r)" for view U
    by (rule ext) (simp only: imputed_def)
  then show ?thesis
    by (simp only: impute_match_fields_as_order impute_match_fields_in_eq [OF assms])
qed

lemma imputed_row:
  assumes "df \<noteq> combined" and "i < length (s df)"
  shows "impute_match_fields df combined s df ! i =
           imputed (all_object (s df)) (s combined) (s df ! i)"
  using assms by (simp add: impute_match_fields_eq)

lemma imputed_city: "city (imputed view U row) = new_city U row (city row)"
  by (simp add: imputed_def rule_update_def)

lemma imputed_event_copy:
  "event_name (imputed False U row) = new_event_name U row (event_name row)"
  by (simp add: imputed_def rule_update_def)

lemma city_mask_iff:
  "city_mask row u \<longleftrightarrow> venue row \<noteq> None \<and> venue u = venue row \<and> \<not> is_missing (city u)"
  by (auto simp: city_mask_def series_eq_def series_ne_def is_missing_def split: option.splits)

lemma event_mask1_iff:
  "event_mask1 row u \<longleftrightarrow>
     \<not> is_missing (event_name u) \<and> sort (teams u) = sort (teams row) \<and>
     ((city row \<noteq> None \<and> city u = city row) \<or> (is_missing (city row) \<and> city u \<noteq> Some []))"
  by (auto simp: event_mask1_def teams_key_def series_eq_def series_ne_def is_missing_def
      split: option.splits)

lemma event_mask2_iff:
  "event_mask2 row u \<longleftrightarrow> \<not> is_missing (event_name u) \<and> sort (teams u) = sort (teams row)"
  by (auto simp: event_mask2_def teams_key_def series_eq_def series_ne_def is_missing_def
      split: option.splits)

lemma find_cong_pred: "(\<And>x. x \<in> set xs \<Longrightarrow> P x = Q x) \<Longrightarrow> find P xs = find Q xs"
  by (induction xs) simp_all

text \<open>
  C5. Let the universe be a frame of its own. For a target record whose city is
  null or empty: when some universe record has the target's venue and a city
  that is neither null nor empty, the target's city after imputation is the
  city of the first such record in the order of the universe; when there is
  none, the city is left as it was. So the city after imputation is the one it
  was before, or the city of a universe record with the same venue.
\<close>

theorem city_backfill:
  assumes "df \<noteq> combined" and "i < length (s df)" and "is_missing (city (s df ! i))"
  shows "(case find (\<lambda>u. venue (s df ! i) \<noteq> None \<and> venue u = venue (s df ! i) \<and>
                         \<not> is_missing (city u)) (s combined) of
            Some u \<Rightarrow> city (impute_match_fields df combined s df ! i) = city u
          | None \<Rightarrow> city (impute_match_fields df combined s df ! i) = city (s df ! i)) \<and>
         (city (impute_match_fields df combined s df ! i) = city (s df ! i) \<or>
          (\<exists>u \<in> set (s combined). venue u = venue (s df ! i) \<and> \<not> is_missing (city u) \<and>
             city (impute_match_fields df combined s df ! i) = city u))"
proof -
  let ?row = "s df ! i"
  let ?P = "\<lambda>u. venue ?row \<noteq> None \<and> venue u = venue ?row \<and> \<not> is_missing (city u)"
  have f: "find (city_mask ?row) (s combined) = find ?P (s combined)"
    by (rule find_cong_pred) (rule city_mask_iff)
  have c: "city (impute_match_fields df combined s df ! i) =
           (case find ?P (s combined) of None \<Rightarrow> city ?row | Some u \<Rightarrow> city u)"
    using assms by (simp add: imputed_row imputed_city new_city_def f)
  show ?thesis
  proof (cases "find ?P (s combined)")
    case None
    with c show ?thesis by simp
  next
    case (Some u)
    then have "u \<in> set (s combined)" and "?P u"
      by (auto simp: find_Some_iff)
    with c Some show ?thesis by auto
  qed
qed

text \<open>
  The scenario of the specification: a test match in Mumbai and an ODI match at
  the same venue with the empty string for a city; after imputation both have
  the city Mumbai.
\<close>

lemma two_tier_facts:
  "0 < length (two_tier_store DfOdis)"
  "is_missing (city (two_tier_store DfOdis ! 0))"
  "map city (two_tier_store Combined) = [Some ''Mumbai'', Some []]"
  "map venue (two_tier_store Combined) = [Some ''Wankhede'', Some ''Wankhede'']"
  "map city (impute_match_fields DfOdis Combined two_tier_store DfOdis) = [Some ''Mumbai'']"
  "map city (impute_all (make_frames two_tier_lists) DfTests @
             impute_all (make_frames two_tier_lists) DfOdis) = [Some ''Mumbai'', Some ''Mumbai'']"
  by code_simp+

theorem city_backfill_witness:
  "DfOdis \<noteq> Combined \<and> 0 < length (two_tier_store DfOdis) \<and>
   is_missing (city (two_tier_store DfOdis ! 0)) \<and>
   map city (two_tier_store Combined) = [Some ''Mumbai'', Some []] \<and>
   map venue (two_tier_store Combined) = [Some ''Wankhede'', Some ''Wankhede''] \<and>
   map city (impute_match_fields DfOdis Combined two_tier_store DfOdis) = [Some ''Mumbai''] \<and>
   map city (impute_all (make_frames two_tier_lists) DfTests @
             impute_all (make_frames two_tier_lists) DfOdis) = [Some ''Mumbai'', Some ''Mumbai'']"
proof -
  have h1: "DfOdis \<noteq> Combined" by simp
  show ?thesis
    using city_backfill [where df = DfOdis and combined = Combined and i = 0 and s = two_tier_store]
      h1 two_tier_facts
    by simp
qed

text \<open>
  C6 as stated fails. Each target below has no event name, and the universe
  holds matches of its two teams; its table is not the universe except in the
  last case.

  \<^item> The target has no city and its table has a numeric column. The universe holds
    E1 with the empty string for a city and E3 in Pune. The first pass of the
    source leaves out the record whose city is the empty string: the event name
    is E3, and under "any city" E1 would be the first.
  \<^item> The same with a universe record of event E2 whose city is null, between E1
    and E3: the source takes E2, where "any city" gives E1 and "any record that
    has a city" gives E3.
  \<^item> The target has the empty string for a city, a venue at which the universe
    has a match in Mumbai, and a table with a numeric column. The city backfill
    writes Mumbai, but the event-name lookup reads the row as it was when the
    loop began: it takes E1, played in Delhi, the first record with any city,
    where the backfilled city gives E2, played in Mumbai.
  \<^item> The same target in a table all of whose columns are columns of objects: the
    lookup reads the city just written and takes E2, where the city the record
    had gives E1.
  \<^item> Four test matches and no match in another tier: the universe is the test
    table itself. The second match receives the city Mumbai, and the third,
    played in Mumbai, then takes the event E1 of the second, where the universe
    as it was before imputation gives E2.
\<close>

theorem event_name_counterexample:
  "\<not> all_object (xy_store DfT20s) \<and>
   city (xy_store DfT20s ! 0) = None \<and>
   city (impute_match_fields DfT20s Combined xy_store DfT20s ! 0) = None \<and>
   event_name (impute_match_fields DfT20s Combined xy_store DfT20s ! 0) = Some ''E3'' \<and>
   spec_event_name spec_pass1 (xy_store Combined) (xy_store DfT20s ! 0) = Some ''E1'' \<and>
   \<not> all_object (xy_null_store DfT20s) \<and>
   city (xy_null_store DfT20s ! 0) = None \<and>
   event_name (impute_match_fields DfT20s Combined xy_null_store DfT20s ! 0) = Some ''E2'' \<and>
   spec_event_name spec_pass1 (xy_null_store Combined) (xy_null_store DfT20s ! 0) = Some ''E1'' \<and>
   spec_event_name spec_pass1_city (xy_null_store Combined) (xy_null_store DfT20s ! 0) = Some ''E3'' \<and>
   \<not> all_object (copy_store DfTests) \<and>
   city (copy_store DfTests ! 0) = Some [] \<and>
   city (impute_match_fields DfTests Combined copy_store DfTests ! 0) = Some ''Mumbai'' \<and>
   event_name (impute_match_fields DfTests Combined copy_store DfTests ! 0) = Some ''E1'' \<and>
   spec_event_name spec_pass1 (copy_store Combined)
     ((copy_store DfTests ! 0)\<lparr>city := Some ''Mumbai''\<rparr>) = Some ''E2'' \<and>
   spec_event_name spec_pass1_city (copy_store Combined)
     ((copy_store DfTests ! 0)\<lparr>city := Some ''Mumbai''\<rparr>) = Some ''E2'' \<and>
   all_object (view_store DfTests) \<and>
   city (view_store DfTests ! 0) = Some [] \<and>
   event_name (impute_match_fields DfTests Combined view_store DfTests ! 0) = Some ''E2'' \<and>
   spec_event_name spec_pass1 (view_store Combined) (view_store DfTests ! 0) = Some ''E1'' \<and>
   spec_event_name spec_pass1_city (view_store Combined) (view_store DfTests ! 0) = Some ''E1'' \<and>
   universe_frame alone_lists = DfTests \<and>
   \<not> all_object (universe_before alone_lists) \<and>
   map city (universe_before alone_lists) =
     [Some ''Mumbai'', Some [], Some ''Mumbai'', Some ''Mumbai''] \<and>
   map event_name (universe_before alone_lists) = [None, Some ''E1'', None, Some ''E2''] \<and>
   map event_name (impute_all (make_frames alone_lists) DfTests) =
     [None, Some ''E1'', Some ''E1'', Some ''E2''] \<and>
   spec_event_name spec_pass1 (universe_before alone_lists) (universe_before alone_lists ! 2) =
     Some ''E2'' \<and>
   spec_event_name spec_pass1_city (universe_before alone_lists) (universe_before alone_lists ! 2) =
     Some ''E2''"
  by code_simp

text \<open>
  C6, amended. Let the universe be a frame of its own, and let the tier's table
  have a column that is not a column of objects, so that the loop reads copies
  of the rows. Take a target record with a null or empty event name, and, when
  its city is null or empty, let no universe record that has an event name and
  the target's sorted team list have a null city. The first pass considers the
  universe records that have an event name, whose sorted team list is the
  target's, and whose city is, as a string, the city the target had before
  imputation, or, when that city is null or empty, is neither null nor empty.
  Only when the first pass finds no record a second pass takes the universe
  records that have an event name and the target's sorted team list. The
  target's event name becomes that of the first record of the first pass that
  finds one, and is left as it was when both find none.
\<close>

theorem event_name_backfill:
  assumes "df \<noteq> combined" and "i < length (s df)" and "\<not> all_object (s df)"
    and "is_missing (event_name (s df ! i))"
    and "is_missing (city (s df ! i)) \<longrightarrow>
           (\<forall>u \<in> set (s combined).
              \<not> is_missing (event_name u) \<and> sort (teams u) = sort (teams (s df ! i)) \<longrightarrow>
              city u \<noteq> None)"
  shows "event_name (impute_match_fields df combined s df ! i) =
           (case find (\<lambda>u. \<not> is_missing (event_name u) \<and>
                            sort (teams u) = sort (teams (s df ! i)) \<and>
                            ((city (s df ! i) \<noteq> None \<and> city u = city (s df ! i)) \<or>
                             (is_missing (city (s df ! i)) \<and> \<not> is_missing (city u))))
                   (s combined) of
              Some u \<Rightarrow> event_name u
            | None \<Rightarrow>
                (case find (\<lambda>u. \<not> is_missing (event_name u) \<and>
                                 sort (teams u) = sort (teams (s df ! i))) (s combined) of
                   Some u \<Rightarrow> event_name u
                 | None \<Rightarrow> event_name (s df ! i)))"
proof -
  let ?row = "s df ! i"
  have f1: "find (event_mask1 ?row) (s combined) =
            find (\<lambda>u. \<not> is_missing (event_name u) \<and> sort (teams u) = sort (teams ?row) \<and>
                      ((city ?row \<noteq> None \<and> city u = city ?row) \<or>
                       (is_missing (city ?row) \<and> \<not> is_missing (city u)))) (s combined)"
  proof (rule find_cong_pred)
    fix u
    assume u: "u \<in> set (s combined)"
    show "event_mask1 ?row u =
          (\<not> is_missing (event_name u) \<and> sort (teams u) = sort (teams ?row) \<and>
           ((city ?row \<noteq> None \<and> city u = city ?row) \<or>
            (is_missing (city ?row) \<and> \<not> is_missing (city u))))"
      using assms(5) u by (auto simp: event_mask1_iff is_missing_def)
  qed
  have f2: "find (event_mask2 ?row) (s combined) =
            find (\<lambda>u. \<not> is_missing (event_name u) \<and> sort (teams u) = sort (teams ?row)) (s combined)"
    by (rule find_cong_pred) (rule event_mask2_iff)
  have e: "event_name (impute_match_fields df combined s df ! i) =
           new_event_name (s combined) ?row (event_name ?row)"
    using assms(1-3) by (simp add: imputed_row imputed_event_copy)
  show ?thesis
    unfolding e new_event_name_def f1 f2 by (simp only: assms(4) if_True)
qed

text \<open>
  The T20 match between X and Y without a city: of the test matches E1, with the
  empty string for a city, and E3, in Pune, the first pass finds E3.
\<close>

theorem event_name_backfill_witness:
  "DfT20s \<noteq> Combined \<and> 0 < length (xy_store DfT20s) \<and>
   \<not> all_object (xy_store DfT20s) \<and>
   event_name (xy_store DfT20s ! 0) = None \<and>
   city (xy_store DfT20s ! 0) = None \<and>
   teams (xy_store DfT20s ! 0) = [''X'', ''Y''] \<and>
   map teams (xy_store Combined) = replicate 3 [''X'', ''Y''] \<and>
   map city (xy_store Combined) = [Some [], Some ''Pune'', None] \<and>
   map event_name (xy_store Combined) = [Some ''E1'', Some ''E3'', None] \<and>
   event_name (impute_match_fields DfT20s Combined xy_store DfT20s ! 0) = Some ''E3''"
proof -
  have h1: "DfT20s \<noteq> Combined" by simp
  have h2: "0 < length (xy_store DfT20s)" by code_simp
  have h3: "\<not> all_object (xy_store DfT20s)" by code_simp
  have h4: "is_missing (event_name (xy_store DfT20s ! 0))" by code_simp
  have h5: "is_missing (city (xy_store DfT20s ! 0)) \<longrightarrow>
           (\<forall>u \<in> set (xy_store Combined).
              \<not> is_missing (event_name u) \<and> sort (teams u) = sort (teams (xy_store DfT20s ! 0)) \<longrightarrow>
              city u \<noteq> None)"
    by code_simp
  have facts:
    "event_name (xy_store DfT20s ! 0) = None"
    "city (xy_store DfT20s ! 0) = None"
    "teams (xy_store DfT20s ! 0) = [''X'', ''Y'']"
    "map teams (xy_store Combined) = replicate 3 [''X'', ''Y'']"
    "map city (xy_store Combined) = [Some [], Some ''Pune'', None]"
    "map event_name (xy_store Combined) = [Some ''E1'', Some ''E3'', None]"
    by code_simp+
  have rhs:
    "(case find (\<lambda>u. \<not> is_missing (event_name u) \<and>
                      sort (teams u) = sort (teams (xy_store DfT20s ! 0)) \<and>
                      ((city (xy_store DfT20s ! 0) \<noteq> None \<and> city u = city (xy_store DfT20s ! 0)) \<or>
                       (is_missing (city (xy_store DfT20s ! 0)) \<and> \<not> is_missing (city u))))
             (xy_store Combined) of
        Some u \<Rightarrow> event_name u
      | None \<Rightarrow>
          (case find (\<lambda>u. \<not> is_missing (event_name u) \<and>
                           sort (teams u) = sort (teams (xy_store DfT20s ! 0))) (xy_store Combined) of
             Some u \<Rightarrow> event_name u
           | None \<Rightarrow> event_name (xy_store DfT20s ! 0))) = Some ''E3''"
    by code_simp
  show ?thesis
    using event_name_backfill [OF h1 h2 h3 h4 h5] h1 h2 h3 facts
    unfolding rhs by simp
qed
section \<open>The Imputer: what it writes\<close>














section \<open>The Imputer: the order of its rules\<close>

lemma filter_update_fails:
  "\<not> P (xs ! i) \<Longrightarrow> \<not> P y \<Longrightarrow> filter P (xs[i := y]) = filter P xs"
proof (induction xs arbitrary: i)
  case Nil
  then show ?case by simp
next
  case (Cons x xs)
  then show ?case by (cases i) simp_all
qed

lemma filter_update_beyond:
  "\<not> i < length xs \<Longrightarrow> filter P (xs[i := y]) = filter P xs"
  by (simp add: list_update_beyond)

lemma city_mask_missing: "is_missing (city u) \<Longrightarrow> \<not> city_mask row u"
  by (simp add: city_mask_iff)

lemma event_mask1_missing: "is_missing (event_name u) \<Longrightarrow> \<not> event_mask1 row u"
  by (simp add: event_mask1_iff)

lemma event_mask2_missing: "is_missing (event_name u) \<Longrightarrow> \<not> event_mask2 row u"
  by (simp add: event_mask2_iff)

lemma universe_but_init: "universe_but df combined idx (s combined) s"
  by (simp add: universe_but_def)

lemma universe_but_at_set:
  "universe_but df combined idx U s \<Longrightarrow> universe_but df combined idx U (at_set df idx upd s)"
proof (cases "df = combined")
  case True
  assume "universe_but df combined idx U s"
  with True have u: "s df = U[idx := s df ! idx]" by (simp add: universe_but_def)
  have "(s df)[idx := v] = U[idx := v]" for v
    by (subst u) simp
  moreover have "U[idx := v] = U[idx := U[idx := v] ! idx]" for v
    by (cases "idx < length U") (simp_all add: list_update_beyond)
  ultimately show ?thesis
    using True by (simp add: universe_but_def at_set_def)
next
  case False
  assume "universe_but df combined idx U s"
  with False show ?thesis
    by (simp add: universe_but_def at_set_def)
qed

lemma filter_universe_but:
  assumes "universe_but df combined idx U s" and "df = combined \<longrightarrow> U ! idx = row"
    and "\<not> P row" and "\<not> P (s df ! idx)"
  shows "filter P (s combined) = filter P U"
proof (cases "df = combined")
  case True
  with assms(1) have u: "s combined = U[idx := s df ! idx]"
    by (simp add: universe_but_def)
  show ?thesis
  proof (cases "idx < length U")
    case True
    from assms(2) \<open>df = combined\<close> have "U ! idx = row" by simp
    with assms(3) have "\<not> P (U ! idx)" by simp
    then have "filter P (U[idx := s df ! idx]) = filter P U"
      using assms(4) by (rule filter_update_fails)
    then show ?thesis by (simp only: u)
  next
    case False
    then show ?thesis by (simp add: u list_update_beyond)
  qed
next
  case False
  with assms(1) show ?thesis by (simp add: universe_but_def)
qed

lemma impute_city_step:
  assumes "universe_but df combined idx U s" and "df = combined \<longrightarrow> U ! idx = row"
    and "city (s df ! idx) = city row"
  shows "impute_city df combined idx row s =
           at_set df idx (\<lambda>r. r\<lparr>city := new_city U row (city r)\<rparr>) s"
proof (cases "is_missing (city row)")
  case True
  have m: "\<not> city_mask row row"
    using True by (rule city_mask_missing)
  have "is_missing (city (s df ! idx))"
    using True by (simp only: assms(3))
  then have m': "\<not> city_mask row (s df ! idx)"
    by (rule city_mask_missing)
  have "filter (city_mask row) (s combined) = filter (city_mask row) U"
    using assms(1) assms(2) m m' by (rule filter_universe_but)
  then show ?thesis
    using True
    by (auto simp: impute_city_def new_city_def filter_find_case [symmetric] at_set_def
        split: list.splits)
next
  case False
  then show ?thesis
    by (simp add: impute_city_def new_city_def at_set_def)
qed

lemma impute_event_step:
  assumes "universe_but df combined idx U s" and "df = combined \<longrightarrow> U ! idx = row"
    and "event_name (s df ! idx) = event_name row"
  shows "impute_event df combined idx row s =
           at_set df idx (\<lambda>r. r\<lparr>event_name := new_event_name U row (event_name r)\<rparr>) s"
proof (cases "is_missing (event_name row)")
  case True
  have e: "is_missing (event_name (s df ! idx))"
    using True by (simp only: assms(3))
  have "filter (event_mask1 row) (s combined) = filter (event_mask1 row) U"
    using assms(1) assms(2) event_mask1_missing [OF True] event_mask1_missing [OF e]
    by (rule filter_universe_but)
  moreover have "filter (event_mask2 row) (s combined) = filter (event_mask2 row) U"
    using assms(1) assms(2) event_mask2_missing [OF True] event_mask2_missing [OF e]
    by (rule filter_universe_but)
  ultimately show ?thesis
    using True
    by (auto simp: impute_event_def new_event_name_def filter_find_case [symmetric] at_set_def
        split: list.splits)
next
  case False
  then show ?thesis
    by (simp add: impute_event_def new_event_name_def at_set_def)
qed

lemma apply_rule_step:
  assumes "universe_but df combined idx U s" and "df = combined \<longrightarrow> U ! idx = row"
    and "rl = CityRule \<longrightarrow> city (s df ! idx) = city row"
    and "rl = EventRule \<longrightarrow> event_name (s df ! idx) = event_name row"
  shows "apply_rule False df combined idx row rl s = at_set df idx (rule_update U row rl) s"
  using assms
  by (cases rl)
    (simp_all add: apply_rule_def read_row_def rule_update_def impute_city_step impute_event_step
      impute_outcome_eq)

lemma rule_update_keeps:
  "rl \<noteq> CityRule \<Longrightarrow> city (rule_update U row rl r) = city r"
  "rl \<noteq> EventRule \<Longrightarrow> event_name (rule_update U row rl r) = event_name r"
  by (cases rl; simp add: rule_update_def)+

lemma fold_rules:
  assumes "distinct order" and "idx < length (s df)"
    and "universe_but df combined idx U s" and "df = combined \<longrightarrow> U ! idx = row"
    and "CityRule \<in> set order \<longrightarrow> city (s df ! idx) = city row"
    and "EventRule \<in> set order \<longrightarrow> event_name (s df ! idx) = event_name row"
  shows "fold (apply_rule False df combined idx row) order s =
           at_set df idx (rules_update False U row order) s"
  using assms
proof (induction order arbitrary: s)
  case Nil
  then show ?case by (simp add: at_set_def)
next
  case (Cons rl order)
  let ?s1 = "at_set df idx (rule_update U row rl) s"
  have s1: "apply_rule False df combined idx row rl s = ?s1"
    using Cons.prems by (intro apply_rule_step) simp_all
  have rl: "rl \<notin> set order" and d: "distinct order"
    using Cons.prems(1) by simp_all
  have len: "idx < length (?s1 df)"
    using Cons.prems(2) by (simp add: at_set_length)
  have row1: "?s1 df ! idx = rule_update U row rl (s df ! idx)"
    using Cons.prems(2) by (simp add: at_set_row)
  have c: "CityRule \<in> set order \<longrightarrow> city (?s1 df ! idx) = city row"
  proof
    assume m: "CityRule \<in> set order"
    with rl have "rl \<noteq> CityRule" by auto
    with m Cons.prems(5) show "city (?s1 df ! idx) = city row"
      by (simp add: row1 rule_update_keeps)
  qed
  have e: "EventRule \<in> set order \<longrightarrow> event_name (?s1 df ! idx) = event_name row"
  proof
    assume m: "EventRule \<in> set order"
    with rl have "rl \<noteq> EventRule" by auto
    with m Cons.prems(6) show "event_name (?s1 df ! idx) = event_name row"
      by (simp add: row1 rule_update_keeps)
  qed
  have "fold (apply_rule False df combined idx row) (rl # order) s =
        fold (apply_rule False df combined idx row) order ?s1"
    by (simp add: s1)
  also have "\<dots> = at_set df idx (rules_update False U row order) ?s1"
    using d len universe_but_at_set [OF Cons.prems(3)] Cons.prems(4) c e
    by (rule Cons.IH)
  also have "\<dots> = at_set df idx (rules_update False U row (rl # order)) s"
  proof -
    have "rules_update False U row (rl # order) =
          rules_update False U row order \<circ> rule_update U row rl"
      by (rule ext) simp
    then show ?thesis
      by (simp only: at_set_at_set)
  qed
  finally show ?case .
qed

lemma impute_row_in_copy:
  assumes "distinct order" and "idx < length (s df)" and "s df ! idx = row"
  shows "impute_row_in order False df combined idx row s =
           at_set df idx (rules_update False (s combined) row order) s"
proof -
  have u: "df = combined \<longrightarrow> s combined ! idx = row"
    using assms(3) by auto
  have c: "CityRule \<in> set order \<longrightarrow> city (s df ! idx) = city row"
    and e: "EventRule \<in> set order \<longrightarrow> event_name (s df ! idx) = event_name row"
    using assms(3) by simp_all
  show ?thesis
    unfolding impute_row_in_def
    using assms(1) assms(2) universe_but_init u c e by (rule fold_rules)
qed

lemma rules_update_orders:
  "rules_update False U row [CityRule, EventRule, OutcomeRule] =
   rules_update False U row [CityRule, OutcomeRule, EventRule]"
  "rules_update False U row [OutcomeRule, CityRule, EventRule] =
   rules_update False U row [CityRule, OutcomeRule, EventRule]"
  "rules_update False U row [OutcomeRule, EventRule, CityRule] =
   rules_update False U row [CityRule, OutcomeRule, EventRule]"
  "rules_update False U row [EventRule, CityRule, OutcomeRule] =
   rules_update False U row [CityRule, OutcomeRule, EventRule]"
  "rules_update False U row [EventRule, OutcomeRule, CityRule] =
   rules_update False U row [CityRule, OutcomeRule, EventRule]"
  by (rule ext, simp add: rule_update_def)+

lemma drop_Cons_nth:
  assumes "drop n xs = y # ys"
  shows "n < length xs" and "xs ! n = y" and "drop (Suc n) xs = ys"
proof -
  show n: "n < length xs"
    using assms by (cases "n < length xs") simp_all
  from n have "drop n xs = xs ! n # drop (Suc n) xs"
    by (simp add: Cons_nth_drop_Suc)
  with assms show "xs ! n = y" and "drop (Suc n) xs = ys" by simp_all
qed

lemma impute_loop_cong:
  assumes "\<And>idx row s. idx < length (s df) \<Longrightarrow> s df ! idx = row \<Longrightarrow>
             b1 idx row s = at_set df idx (h s row) s \<and> b2 idx row s = at_set df idx (h s row) s"
    and "drop n (s df) = rows"
  shows "impute_loop b1 (enumerate n rows) s = impute_loop b2 (enumerate n rows) s"
  using assms(2)
proof (induction rows arbitrary: n s)
  case Nil
  then show ?case by simp
next
  case (Cons row rest)
  note d = drop_Cons_nth [OF Cons.prems]
  let ?s1 = "at_set df n (h s row) s"
  have b: "b1 n row s = ?s1" "b2 n row s = ?s1"
    using assms(1) [of n s row] d(1) d(2) by simp_all
  have "drop (Suc n) (?s1 df) = rest"
    using d(3) by (simp add: at_set_def)
  then have "impute_loop b1 (enumerate (Suc n) rest) ?s1 = impute_loop b2 (enumerate (Suc n) rest) ?s1"
    by (rule Cons.IH)
  then show ?case
    by (simp add: b)
qed

lemma orders_agree:
  assumes "\<not> all_object (s df)" and "distinct order"
    and "\<And>U row. rules_update False U row order =
                   rules_update False U row [CityRule, OutcomeRule, EventRule]"
  shows "impute_match_fields_in order df combined s = impute_match_fields df combined s"
proof -
  have "impute_loop (impute_row_in order False df combined) (enumerate 0 (s df)) s =
        impute_loop (impute_row_in [CityRule, OutcomeRule, EventRule] False df combined)
          (enumerate 0 (s df)) s"
  proof (rule impute_loop_cong
      [where h = "\<lambda>s' row. rules_update False (s' combined) row [CityRule, OutcomeRule, EventRule]"
         and df = df])
    show "drop 0 (s df) = s df" by simp
  next
    fix idx :: nat and row :: match_data and s' :: store
    assume a: "idx < length (s' df)" "s' df ! idx = row"
    have "impute_row_in order False df combined idx row s' =
          at_set df idx (rules_update False (s' combined) row order) s'"
      using assms(2) a by (rule impute_row_in_copy)
    moreover have "impute_row_in [CityRule, OutcomeRule, EventRule] False df combined idx row s' =
          at_set df idx (rules_update False (s' combined) row [CityRule, OutcomeRule, EventRule]) s'"
      using a by (intro impute_row_in_copy) simp_all
    ultimately show
      "impute_row_in order False df combined idx row s' =
         at_set df idx (rules_update False (s' combined) row [CityRule, OutcomeRule, EventRule]) s' \<and>
       impute_row_in [CityRule, OutcomeRule, EventRule] False df combined idx row s' =
         at_set df idx (rules_update False (s' combined) row [CityRule, OutcomeRule, EventRule]) s'"
      by (simp add: assms(3))
  qed
  then show ?thesis
    using assms(1) by (simp add: impute_match_fields_as_order impute_match_fields_in_def)
qed

text \<open>
  C10 as stated fails. A test match with the empty string for a city, in a table
  all of whose columns are columns of objects, and a universe, a frame of its
  own, that has its venue in Mumbai and matches of its teams for the event E1
  in Delhi and for the event E2 in Mumbai: in the order of the source the
  event-name rule reads the city Mumbai that the city rule has written, and
  takes E2; run before the city rule it reads the empty string and takes E1.
\<close>

theorem rule_order_counterexample:
  "all_object (view_store DfTests) \<and>
   universe_frame
     \<lparr> tests = [wankhede_test], odis = evidence_odis, t20s = [], deliveries = [] \<rparr> = Combined \<and>
   map event_name (impute_match_fields DfTests Combined view_store DfTests) = [Some ''E2''] \<and>
   map event_name
     (impute_match_fields_in [EventRule, CityRule, OutcomeRule] DfTests Combined view_store DfTests) =
     [Some ''E1''] \<and>
   map city (impute_match_fields DfTests Combined view_store DfTests) = [Some ''Mumbai''] \<and>
   map city
     (impute_match_fields_in [EventRule, CityRule, OutcomeRule] DfTests Combined view_store DfTests) =
     [Some ''Mumbai'']"
  by code_simp

text \<open>
  C10, amended. When the tier's table has a column that is not a column of
  objects, so that each rule reads the copy of the row taken when the loop
  began, the Imputer leaves the same frames whichever of the six orders its
  three rules are applied in to each record.
\<close>

theorem imputation_rules_commute:
  assumes "\<not> all_object (s df)"
  shows "impute_match_fields_in [CityRule, OutcomeRule, EventRule] df combined s =
           impute_match_fields df combined s \<and>
         impute_match_fields_in [CityRule, EventRule, OutcomeRule] df combined s =
           impute_match_fields df combined s \<and>
         impute_match_fields_in [OutcomeRule, CityRule, EventRule] df combined s =
           impute_match_fields df combined s \<and>
         impute_match_fields_in [OutcomeRule, EventRule, CityRule] df combined s =
           impute_match_fields df combined s \<and>
         impute_match_fields_in [EventRule, CityRule, OutcomeRule] df combined s =
           impute_match_fields df combined s \<and>
         impute_match_fields_in [EventRule, OutcomeRule, CityRule] df combined s =
           impute_match_fields df combined s"
  using assms
  by (simp add: orders_agree rules_update_orders impute_match_fields_as_order [symmetric])

text \<open>
  The same test match, recorded as won by 10 runs, which gives its table a
  numeric column: in the order event name, outcome result, city, as in the order
  of the source, it ends in Mumbai, won, with the event E1.
\<close>

theorem imputation_rules_commute_witness:
  "\<not> all_object (copy_store DfTests) \<and>
   impute_match_fields_in [EventRule, OutcomeRule, CityRule] DfTests Combined copy_store DfTests =
     [(copy_store DfTests ! 0)
        \<lparr> city := Some ''Mumbai'', outcome_result := Some ''win'', event_name := Some ''E1'' \<rparr>] \<and>
   impute_match_fields DfTests Combined copy_store DfTests =
     [(copy_store DfTests ! 0)
        \<lparr> city := Some ''Mumbai'', outcome_result := Some ''win'', event_name := Some ''E1'' \<rparr>]"
proof -
  have h: "\<not> all_object (copy_store DfTests)" by code_simp
  have r: "impute_match_fields_in [EventRule, OutcomeRule, CityRule] DfTests Combined copy_store DfTests =
     [(copy_store DfTests ! 0)
        \<lparr> city := Some ''Mumbai'', outcome_result := Some ''win'', event_name := Some ''E1'' \<rparr>]"
    by code_simp
  show ?thesis
    using imputation_rules_commute [where s = copy_store and df = DfTests and combined = Combined] h r
    by simp
qed

end
